theory Spec2Isabelle
  imports Complex_Main "HOL-Library.AList"
begin

section \<open>Numbers: decimal.js values at a fixed precision\<close>

text \<open>
  The library does all its arithmetic on \<^verbatim>\<open>Decimal\<close> values of decimal.js.
  \<^verbatim>\<open>src/index.ts\<close> configures the package once:
  \<^verbatim>\<open>Decimal.set({ precision: 25, rounding: 4, crypto: true })\<close>, that is: every
  arithmetic operation returns its exact result rounded to 25 significant digits,
  ties away from zero (rounding mode 4, ROUND_HALF_UP). The precision is a
  parameter \<open>p\<close> of every operation below; 25 is the value of \<^verbatim>\<open>index.ts\<close>
  (decimal.js itself starts at 20).

  A \<^verbatim>\<open>Decimal\<close> is NaN, plus or minus Infinity, or a finite decimal number. A
  JavaScript \<^verbatim>\<open>number\<close> is modelled by the same type: \<^verbatim>\<open>new Decimal(n)\<close> takes the
  decimal numeral that \<open>n\<close> prints as, without rounding, so a number is represented
  here by that numeral. The sign of zero is not modelled.
\<close>

datatype decimal = NaN | PosInf | NegInf | Fin real

text \<open>The number of decimal digits of a natural number (one digit for 0).\<close>

function ndigits :: "nat \<Rightarrow> nat" where
  "ndigits n = (if n < 10 then 1 else Suc (ndigits (n div 10)))"
  by pat_completeness auto
termination
  by (relation "measure (\<lambda>n. n)") auto

declare ndigits.simps [simp del]

text \<open>
  The decimal exponent of a positive number: the \<open>k\<close> with \<open>10^k \<le> x < 10^(k+1)\<close>,
  read off the digits of the integer part of \<open>x\<close> (or of \<open>1/x\<close> below 1).
\<close>

definition dexp :: "real \<Rightarrow> int" where
  "dexp x = (if 1 \<le> x then int (ndigits (nat \<lfloor>x\<rfloor>)) - 1
             else - int (ndigits (nat (\<lceil>1 / x\<rceil> - 1))))"

text \<open>The value of one unit in the last of \<open>p\<close> significant digits of \<open>x\<close>.\<close>

definition quantum :: "nat \<Rightarrow> real \<Rightarrow> real" where
  "quantum p x = 10 powi (dexp \<bar>x\<bar> - int p + 1)"

text \<open>Rounding to \<open>p\<close> significant digits, ties away from zero.\<close>

definition round_sig :: "nat \<Rightarrow> real \<Rightarrow> real" where
  "round_sig p x =
     (if x = 0 then 0
      else sgn x * of_int \<lfloor>\<bar>x\<bar> / quantum p x + 1 / 2\<rfloor> * quantum p x)"

text \<open>
  The numbers of at most \<open>p\<close> significant digits: an integer below \<open>10^p\<close> in
  absolute value, times a power of ten.
\<close>

definition representable :: "nat \<Rightarrow> real \<Rightarrow> bool" where
  "representable p x = (\<exists>m j. x = of_int m * 10 powi j \<and> \<bar>m\<bar> < 10 ^ p)"

text \<open>
  \<^verbatim>\<open>x.plus(y)\<close>: NaN when an operand is NaN or the operands are opposite
  infinities, an infinity when one operand is, the rounded sum otherwise.
\<close>

fun plus_dec :: "nat \<Rightarrow> decimal \<Rightarrow> decimal \<Rightarrow> decimal" where
  "plus_dec p NaN y = NaN"
| "plus_dec p x NaN = NaN"
| "plus_dec p PosInf NegInf = NaN"
| "plus_dec p NegInf PosInf = NaN"
| "plus_dec p PosInf y = PosInf"
| "plus_dec p NegInf y = NegInf"
| "plus_dec p x PosInf = PosInf"
| "plus_dec p x NegInf = NegInf"
| "plus_dec p (Fin x) (Fin y) = Fin (round_sig p (x + y))"

text \<open>\<^verbatim>\<open>x.minus(y)\<close>: like \<^verbatim>\<open>plus\<close> with the sign of \<open>y\<close> changed.\<close>

fun minus_dec :: "nat \<Rightarrow> decimal \<Rightarrow> decimal \<Rightarrow> decimal" where
  "minus_dec p NaN y = NaN"
| "minus_dec p x NaN = NaN"
| "minus_dec p PosInf PosInf = NaN"
| "minus_dec p NegInf NegInf = NaN"
| "minus_dec p PosInf y = PosInf"
| "minus_dec p NegInf y = NegInf"
| "minus_dec p x PosInf = NegInf"
| "minus_dec p x NegInf = PosInf"
| "minus_dec p (Fin x) (Fin y) = Fin (round_sig p (x - y))"

text \<open>
  \<^verbatim>\<open>x.dividedBy(y)\<close>: NaN for NaN operands, \<open>0/0\<close> and \<open>Infinity/Infinity\<close>; zero
  when \<open>x\<close> is zero or \<open>y\<close> is infinite; an infinity when \<open>x\<close> is infinite or \<open>y\<close> is
  zero; the rounded quotient otherwise.
\<close>

fun dividedBy :: "nat \<Rightarrow> decimal \<Rightarrow> decimal \<Rightarrow> decimal" where
  "dividedBy p NaN y = NaN"
| "dividedBy p x NaN = NaN"
| "dividedBy p (Fin x) (Fin y) =
     (if y = 0 then (if x = 0 then NaN else if 0 < x then PosInf else NegInf)
      else Fin (round_sig p (x / y)))"
| "dividedBy p (Fin x) y = Fin 0"
| "dividedBy p PosInf (Fin y) = (if 0 \<le> y then PosInf else NegInf)"
| "dividedBy p NegInf (Fin y) = (if 0 \<le> y then NegInf else PosInf)"
| "dividedBy p x y = NaN"

text \<open>\<^verbatim>\<open>x.times(y)\<close>: NaN for NaN operands and for zero times an infinity.\<close>

fun times_dec :: "nat \<Rightarrow> decimal \<Rightarrow> decimal \<Rightarrow> decimal" where
  "times_dec p NaN y = NaN"
| "times_dec p x NaN = NaN"
| "times_dec p (Fin x) (Fin y) = Fin (round_sig p (x * y))"
| "times_dec p (Fin x) PosInf = (if x = 0 then NaN else if 0 < x then PosInf else NegInf)"
| "times_dec p (Fin x) NegInf = (if x = 0 then NaN else if 0 < x then NegInf else PosInf)"
| "times_dec p PosInf (Fin y) = (if y = 0 then NaN else if 0 < y then PosInf else NegInf)"
| "times_dec p NegInf (Fin y) = (if y = 0 then NaN else if 0 < y then NegInf else PosInf)"
| "times_dec p PosInf PosInf = PosInf"
| "times_dec p NegInf NegInf = PosInf"
| "times_dec p PosInf NegInf = NegInf"
| "times_dec p NegInf PosInf = NegInf"

text \<open>\<^verbatim>\<open>Decimal.abs(x)\<close>.\<close>

fun abs_dec :: "decimal \<Rightarrow> decimal" where
  "abs_dec NaN = NaN"
| "abs_dec PosInf = PosInf"
| "abs_dec NegInf = PosInf"
| "abs_dec (Fin x) = Fin \<bar>x\<bar>"

text \<open>
  The comparisons: \<^verbatim>\<open>x.greaterThan(y)\<close> of decimal.js and the operators \<^verbatim>\<open><\<close>
  and \<^verbatim>\<open><=\<close> of JavaScript on numbers. Every comparison with NaN is false.
\<close>

fun lessThan_dec :: "decimal \<Rightarrow> decimal \<Rightarrow> bool" where
  "lessThan_dec NaN y = False"
| "lessThan_dec x NaN = False"
| "lessThan_dec x NegInf = False"
| "lessThan_dec PosInf y = False"
| "lessThan_dec NegInf y = True"
| "lessThan_dec x PosInf = True"
| "lessThan_dec (Fin x) (Fin y) = (x < y)"

definition greaterThan_dec :: "decimal \<Rightarrow> decimal \<Rightarrow> bool" where
  "greaterThan_dec x y = lessThan_dec y x"

fun lessThanOrEqualTo :: "decimal \<Rightarrow> decimal \<Rightarrow> bool" where
  "lessThanOrEqualTo NaN y = False"
| "lessThanOrEqualTo x NaN = False"
| "lessThanOrEqualTo NegInf y = True"
| "lessThanOrEqualTo x PosInf = True"
| "lessThanOrEqualTo x NegInf = False"
| "lessThanOrEqualTo PosInf y = False"
| "lessThanOrEqualTo (Fin x) (Fin y) = (x \<le> y)"

text \<open>
  \<^verbatim>\<open>Decimal.min\<close> and \<^verbatim>\<open>Decimal.max\<close> of two values (\<^verbatim>\<open>Math.min\<close> and
  \<^verbatim>\<open>Math.max\<close> on numbers behave alike): NaN when an argument is NaN. The result is
  one of the arguments, not rounded.
\<close>

definition min_dec :: "decimal \<Rightarrow> decimal \<Rightarrow> decimal" where
  "min_dec x y =
     (if x = NaN \<or> y = NaN then NaN else if lessThan_dec y x then y else x)"

definition max_dec :: "decimal \<Rightarrow> decimal \<Rightarrow> decimal" where
  "max_dec x y =
     (if x = NaN \<or> y = NaN then NaN else if lessThan_dec x y then y else x)"

text \<open>
  \<^verbatim>\<open>Decimal.log(x)\<close> with one argument is the logarithm to base 10 (the base is the
  optional second argument of decimal.js, 10 when it is left out; the natural
  logarithm is \<^verbatim>\<open>Decimal.ln\<close>). It is NaN below zero and minus infinity at zero.
  The finite result is taken here as the logarithm rounded to \<open>p\<close> significant
  digits, which is what decimal.js aims at; its last digit may differ in rare
  cases, and nothing below depends on that digit.
\<close>

fun log_dec :: "nat \<Rightarrow> decimal \<Rightarrow> decimal" where
  "log_dec p NaN = NaN"
| "log_dec p PosInf = PosInf"
| "log_dec p NegInf = NaN"
| "log_dec p (Fin x) =
     (if x < 0 then NaN else if x = 0 then NegInf else Fin (round_sig p (log 10 x)))"

section \<open>The Laplace mechanism (laplaceProbDistribution)\<close>

text \<open>
  \<^verbatim>\<open>Decimal.random()\<close> draws a decimal in \<open>[0, 1)\<close> from the cryptographic source;
  the draw is the argument \<open>rnd\<close> here, so that the function of the source, which
  reads the random source, is a function of its draw.
\<close>

definition ONE :: decimal where
  "ONE = Fin 1"

definition TWO :: decimal where
  "TWO = Fin 2"

definition laplaceProbDistribution :: "nat \<Rightarrow> decimal \<Rightarrow> decimal \<Rightarrow> decimal \<Rightarrow> decimal" where
  "laplaceProbDistribution p rnd sensitivity epsilon =
     (let scale = dividedBy p sensitivity epsilon;
          symmetricRandom = minus_dec p rnd (Fin (1 / 2));
          sign = (if greaterThan_dec symmetricRandom (Fin 0) then 1 else - 1)
      in times_dec p (times_dec p scale (Fin sign))
           (log_dec p (minus_dec p ONE (times_dec p TWO (abs_dec symmetricRandom)))))"

text \<open>
  The formula of the Laplace mechanism on the same draw, with the natural
  logarithm: \<open>(s / e) * sign * ln (1 - 2 * |u|)\<close>, on real numbers.
\<close>

definition laplace_formula :: "real \<Rightarrow> real \<Rightarrow> real \<Rightarrow> real" where
  "laplace_formula s e u = (s / e) * (if 0 < u then 1 else - 1) * ln (1 - 2 * \<bar>u\<bar>)"

section \<open>Shadow views (src/datastructures.ts)\<close>

text \<open>
  A view is an object of four closures over the array (or over the view) it
  wraps; it is determined by how it was built, so it is the term of its
  constructor functions. \<^verbatim>\<open>forEach\<close> takes a callback that the source runs for its
  effect on the caller's variables: here the callback transforms a state.
  Indices are natural numbers.
\<close>

datatype 'a ArrayView =
    newArrayView "'a list"
  | newIgnoreIndexArrayView "'a ArrayView" nat

fun forEach_arr :: "'a ArrayView \<Rightarrow> ('a \<Rightarrow> nat \<Rightarrow> 's \<Rightarrow> 's) \<Rightarrow> 's \<Rightarrow> 's" where
  "forEach_arr (newArrayView srcArray) callback =
     fold (\<lambda>(val, index). callback val index) (zip srcArray [0..<length srcArray])"
| "forEach_arr (newIgnoreIndexArrayView srcArray ignoreIndex) callback =
     forEach_arr srcArray
       (\<lambda>val index.
          if index \<noteq> ignoreIndex
          then callback val (index - (if index \<ge> ignoreIndex then 1 else 0))
          else id)"

text \<open>\<^verbatim>\<open>get\<close>: reading an array out of range gives \<^verbatim>\<open>undefined\<close>, here None.\<close>

fun get_arr :: "'a ArrayView \<Rightarrow> nat \<Rightarrow> 'a option" where
  "get_arr (newArrayView srcArray) index =
     (if index < length srcArray then Some (srcArray ! index) else None)"
| "get_arr (newIgnoreIndexArrayView srcArray ignoreIndex) index =
     (let trueIndex = (if index < ignoreIndex then index else index + 1)
      in get_arr srcArray trueIndex)"

fun map_arr :: "'a ArrayView \<Rightarrow> ('a \<Rightarrow> nat \<Rightarrow> 'b) \<Rightarrow> 'b list" where
  "map_arr (newArrayView srcArray) callback =
     map (\<lambda>(el, index). callback el index) (zip srcArray [0..<length srcArray])"
| "map_arr (newIgnoreIndexArrayView srcArray ignoreIndex) callback =
     forEach_arr srcArray
       (\<lambda>el index mapped.
          if index \<noteq> ignoreIndex
          then mapped @ [callback el (index - (if index \<ge> ignoreIndex then 1 else 0))]
          else mapped)
       []"

text \<open>
  What \<^verbatim>\<open>next()\<close> returns: \<^verbatim>\<open>{ done, value }\<close>, the value a shadow dataset or
  \<^verbatim>\<open>undefined\<close>. An iterator is an object whose \<^verbatim>\<open>next\<close> closes over a counter;
  it is modelled by the results of its successive calls, the first call being
  call 0. Values delivered as promises are modelled by what they resolve to.
\<close>

datatype 'd IteratorResult = IteratorResult (is_done: bool) (the_value: "'d option")

type_synonym 'd Iterator = "nat \<Rightarrow> 'd IteratorResult"

text \<open>
  \<^verbatim>\<open>index\<close> starts at -1 and \<^verbatim>\<open>next\<close> increments it first, so call number
  \<open>index\<close> sees that index.
\<close>

definition newArrayViewSubsetIterator :: "'a ArrayView \<Rightarrow> 'a ArrayView Iterator" where
  "newArrayViewSubsetIterator dataset =
     (let dataCopy = map_arr dataset (\<lambda>el index. el);
          datasetCopy = newArrayView dataCopy
      in (\<lambda>index.
            let isDone = (int index \<ge> int (length dataCopy) - 1);
                dynamicArr = (if index \<ge> length dataCopy then None
                              else Some (newIgnoreIndexArrayView datasetCopy index))
            in IteratorResult isDone dynamicArr))"

text \<open>
  The method \<^verbatim>\<open>newShadowIterator\<close> of an array view takes no argument; passed as
  the shadow-view producer it is called with the dataset, which it ignores.
\<close>

definition newShadowIterator_arr :: "'a ArrayView \<Rightarrow> 'x \<Rightarrow> 'a ArrayView Iterator" where
  "newShadowIterator_arr lazyArray = (\<lambda>originalDataset. newArrayViewSubsetIterator lazyArray)"






text \<open>
  The sum aggregation of the tests (\<^verbatim>\<open>sumFunction\<close> of \<^verbatim>\<open>tests/util.ts\<close>) on an
  array view of integers, on which the addition of JavaScript is exact below
  \<open>2^53\<close>.
\<close>

definition sumFunction :: "int ArrayView \<Rightarrow> decimal" where
  "sumFunction elements = Fin (of_int (forEach_arr elements (\<lambda>e index sum. sum + e) 0))"

section \<open>The sensitivity estimator (src/sensitivity.ts)\<close>

text \<open>
  A sensitive function returns a number or raises (or returns a promise that
  resolves to a number or is rejected): \<open>Inr\<close> the number, \<open>Inl\<close> what it raised.
\<close>

type_synonym ('d, 'e) SensitiveFunction = "'d \<Rightarrow> 'e + decimal"

definition runOnModifiedDataset ::
  "('d, 'e) SensitiveFunction \<Rightarrow> 'd option \<Rightarrow> 'e + decimal option" where
  "runOnModifiedDataset func next =
     (case next of
        None \<Rightarrow> Inr None
      | Some innerResult \<Rightarrow>
          (case func innerResult of
             Inl e \<Rightarrow> Inl e
           | Inr funcVal \<Rightarrow> Inr (Some funcVal)))"

text \<open>
  The pull loop, and the callback that each calculation runs on its result
  (\<open>outputs\<close> is the pair of \<^verbatim>\<open>minOutput\<close> and \<^verbatim>\<open>maxOutput\<close>). The source starts one calculation per pulled item and lets up to
  \<open>concurrency\<close> of them run at once; each, when it completes, folds its result
  into \<^verbatim>\<open>minOutput\<close> and \<^verbatim>\<open>maxOutput\<close>. The loop below takes the items in the order
  they are pulled and completes each calculation before the next pull. A raise
  of the function rejects the promise the loop awaits (the oldest pending one, or
  \<^verbatim>\<open>Promise.all\<close> at the end), which rejects the whole call. An iterator that
  never reports \<^verbatim>\<open>done\<close> keeps the loop running: the result is None.
\<close>

definition minMaxCalculation :: "decimal option \<Rightarrow> decimal \<times> decimal \<Rightarrow> decimal \<times> decimal" where
  "minMaxCalculation modResult outputs =
     (case modResult of
        None \<Rightarrow> outputs
      | Some r \<Rightarrow> (min_dec (fst outputs) r, max_dec (snd outputs) r))"

partial_function (option) pull_loop ::
  "('d, 'e) SensitiveFunction \<Rightarrow> 'd Iterator \<Rightarrow> nat \<Rightarrow> decimal \<times> decimal
     \<Rightarrow> ('e + decimal \<times> decimal) option" where
  "pull_loop func datasetIter k outputs =
     (let curIter = datasetIter k;
          curValue = the_value curIter
      in case runOnModifiedDataset func curValue of
           Inl e \<Rightarrow> Some (Inl e)
         | Inr modResult \<Rightarrow>
             (let outputs' = minMaxCalculation modResult outputs
              in if is_done curIter then Some (Inr outputs')
                 else pull_loop func datasetIter (k + 1) outputs'))"

definition concurrency_of :: "decimal \<Rightarrow> decimal" where
  "concurrency_of maxConcurrencyCount = max_dec (Fin 1) (min_dec maxConcurrencyCount (Fin 9999))"

definition calculateSensitivity ::
  "nat \<Rightarrow> ('d, 'e) SensitiveFunction \<Rightarrow> ('d \<Rightarrow> 'd Iterator) \<Rightarrow> 'd \<Rightarrow> decimal
     \<Rightarrow> ('e + decimal) option" where
  "calculateSensitivity p func newSubsetIter dataset maxConcurrencyCount =
     (let concurrency = concurrency_of maxConcurrencyCount;
          datasetIter = newSubsetIter dataset;
          minOutput = PosInf;
          maxOutput = NegInf
      in case pull_loop func datasetIter 0 (minOutput, maxOutput) of
           None \<Rightarrow> None
         | Some (Inl e) \<Rightarrow> Some (Inl e)
         | Some (Inr (minOutput', maxOutput')) \<Rightarrow>
             Some (Inr (minus_dec p maxOutput' minOutput')))"

text \<open>
  The same accumulation over a finite list of pulled values, and the iterators
  that report \<^verbatim>\<open>done\<close> for the first time at call \<open>n\<close>: on them the loop pulls
  the values of the calls 0 to \<open>n\<close> and stops (lemma \<open>pull_loop_first_done\<close>).
\<close>

fun accumulate ::
  "('d, 'e) SensitiveFunction \<Rightarrow> 'd option list \<Rightarrow> decimal \<times> decimal
     \<Rightarrow> 'e + decimal \<times> decimal" where
  "accumulate func [] outputs = Inr outputs"
| "accumulate func (next # rest) outputs =
     (case runOnModifiedDataset func next of
        Inl e \<Rightarrow> Inl e
      | Inr modResult \<Rightarrow> accumulate func rest (minMaxCalculation modResult outputs))"

definition first_done :: "'d Iterator \<Rightarrow> nat \<Rightarrow> bool" where
  "first_done datasetIter n =
     (is_done (datasetIter n) \<and> (\<forall>j<n. \<not> is_done (datasetIter j)))"

definition pulled :: "'d Iterator \<Rightarrow> nat \<Rightarrow> 'd option list" where
  "pulled datasetIter n = map (\<lambda>j. the_value (datasetIter j)) [0..<n]"

section \<open>The scheduling of the evaluations (calculateSensitivity)\<close>

text \<open>
  The order of events in a run of \<^verbatim>\<open>calculateSensitivity\<close>, as a transition system.
  JavaScript runs one task at a time: the loop runs until it reaches an \<^verbatim>\<open>await\<close>,
  and the calculations it has started make progress only while it is suspended
  there or between its steps. A calculation is
  \<^verbatim>\<open>runOnModifiedDataset(func, curValue).then(callback)\<close>; it is identified by the
  number of the \<^verbatim>\<open>next()\<close> call whose value it works on, and it is
  \<^item> \<open>Scheduled\<close> when it is created (the function has not been called yet: the
    value may still be a pending promise, or absent),
  \<^item> \<open>Evaluating\<close> once the sensitive function has been called on its value,
  \<^item> \<open>Failed\<close> when the function has raised, or when the promise of its value
    was rejected before the function was called: its promise is rejected, its
    callback never runs and it stays in the array.
  When it completes, its callback removes it from \<^verbatim>\<open>pendingCalculations\<close> (and
  folds the result into the minimum and maximum).
\<close>

datatype phase = Scheduled | Evaluating | Failed

text \<open>
  Where the loop stands: about to pull the next item; suspended at
  \<^verbatim>\<open>await pendingCalculations[0]\<close> on the calculation that was first in the array
  (with \<^verbatim>\<open>curIter.done\<close> of the item just pulled); suspended at
  \<^verbatim>\<open>await Promise.all(pendingCalculations)\<close>; returned; or rejected by an awaited
  calculation that failed.
\<close>

datatype control = Pulling | AwaitingOldest nat bool | AwaitingAll | Returned | Rejected

record scheduler =
  pendingCalculations :: "(nat \<times> phase) list"
  nextCall :: nat
  control :: control

definition initial_scheduler :: scheduler where
  "initial_scheduler = \<lparr> pendingCalculations = [], nextCall = 0, control = Pulling \<rparr>"

text \<open>
  One pass through the loop body up to its \<^verbatim>\<open>await\<close> (or to the next pass): pull,
  start the calculation, push it, and wait on the first pending calculation when
  \<^verbatim>\<open>pendingCalculations.length >= concurrency\<close>.
\<close>

definition pull_step :: "decimal \<Rightarrow> 'd Iterator \<Rightarrow> scheduler \<Rightarrow> scheduler" where
  "pull_step concurrency datasetIter s =
     (let curIter = datasetIter (nextCall s);
          pending' = pendingCalculations s @ [(nextCall s, Scheduled)]
      in \<lparr> pendingCalculations = pending',
           nextCall = Suc (nextCall s),
           control =
             (if lessThanOrEqualTo concurrency (Fin (real (length pending')))
              then AwaitingOldest (fst (hd pending')) (is_done curIter)
              else if is_done curIter then AwaitingAll else Pulling) \<rparr>)"

definition set_phase :: "nat \<Rightarrow> phase \<Rightarrow> (nat \<times> phase) list \<Rightarrow> (nat \<times> phase) list" where
  "set_phase j ph pending = map (\<lambda>c. if fst c = j then (j, ph) else c) pending"

inductive step :: "decimal \<Rightarrow> 'd Iterator \<Rightarrow> scheduler \<Rightarrow> scheduler \<Rightarrow> bool"
  for concurrency :: decimal and datasetIter :: "'d Iterator" where
  pull:
    "control s = Pulling \<Longrightarrow> step concurrency datasetIter s (pull_step concurrency datasetIter s)"
| evaluate:
    "(j, Scheduled) \<in> set (pendingCalculations s) \<Longrightarrow> the_value (datasetIter j) \<noteq> None \<Longrightarrow>
     step concurrency datasetIter s
       (s\<lparr> pendingCalculations := set_phase j Evaluating (pendingCalculations s) \<rparr>)"
| fail:
    "(j, ph) \<in> set (pendingCalculations s) \<Longrightarrow> ph \<noteq> Failed \<Longrightarrow>
     step concurrency datasetIter s
       (s\<lparr> pendingCalculations := set_phase j Failed (pendingCalculations s) \<rparr>)"
| complete:
    "(j, ph) \<in> set (pendingCalculations s) \<Longrightarrow> ph \<noteq> Failed \<Longrightarrow>
     step concurrency datasetIter s
       (s\<lparr> pendingCalculations := filter (\<lambda>c. fst c \<noteq> j) (pendingCalculations s) \<rparr>)"
| resume:
    "control s = AwaitingOldest j d \<Longrightarrow> j \<notin> fst ` set (pendingCalculations s) \<Longrightarrow>
     step concurrency datasetIter s (s\<lparr> control := (if d then AwaitingAll else Pulling) \<rparr>)"
| reject_oldest:
    "control s = AwaitingOldest j d \<Longrightarrow> (j, Failed) \<in> set (pendingCalculations s) \<Longrightarrow>
     step concurrency datasetIter s (s\<lparr> control := Rejected \<rparr>)"
| return:
    "control s = AwaitingAll \<Longrightarrow> pendingCalculations s = [] \<Longrightarrow>
     step concurrency datasetIter s (s\<lparr> control := Returned \<rparr>)"
| reject_all:
    "control s = AwaitingAll \<Longrightarrow> (j, Failed) \<in> set (pendingCalculations s) \<Longrightarrow>
     step concurrency datasetIter s (s\<lparr> control := Rejected \<rparr>)"

inductive reachable :: "decimal \<Rightarrow> 'd Iterator \<Rightarrow> scheduler \<Rightarrow> bool"
  for concurrency :: decimal and datasetIter :: "'d Iterator" where
  start: "reachable concurrency datasetIter initial_scheduler"
| after_step:
    "reachable concurrency datasetIter s \<Longrightarrow> step concurrency datasetIter s s' \<Longrightarrow>
     reachable concurrency datasetIter s'"

text \<open>The calculations whose evaluation of the sensitive function is outstanding.\<close>

definition outstanding :: "scheduler \<Rightarrow> nat" where
  "outstanding s = length (filter (\<lambda>c. snd c = Evaluating) (pendingCalculations s))"

text \<open>
  What every reachable state satisfies, for a concurrency \<open>cr\<close> of at least 1: the
  array never holds \<open>cr + 1\<close> calculations, holds fewer than \<open>cr\<close> whenever the loop
  is about to pull or waits for all, and the calculation awaited at
  \<^verbatim>\<open>await pendingCalculations[0]\<close> is the first of the array as long as it is
  pending.
\<close>

definition sched_inv :: "real \<Rightarrow> scheduler \<Rightarrow> bool" where
  "sched_inv cr s =
     (real (length (pendingCalculations s)) < cr + 1
      \<and> (control s = Pulling \<longrightarrow> real (length (pendingCalculations s)) < cr)
      \<and> (\<forall>j d. control s = AwaitingOldest j d \<longrightarrow>
            (j \<in> fst ` set (pendingCalculations s) \<longrightarrow> j = fst (hd (pendingCalculations s)))
          \<and> (j \<notin> fst ` set (pendingCalculations s) \<longrightarrow> real (length (pendingCalculations s)) < cr))
      \<and> (control s = AwaitingAll \<longrightarrow> real (length (pendingCalculations s)) < cr)
      \<and> (control s = Returned \<longrightarrow> pendingCalculations s = []))"

section \<open>The privacy budget orchestrator (privatize.ts)\<close>

text \<open>The values an options object can hold in a field; a missing field is \<^verbatim>\<open>undefined\<close>.\<close>

datatype 'f jsvalue =
    JSUndefined
  | JSNull
  | JSNumber decimal
  | JSString string
  | JSBoolean bool
  | JSFunction 'f

definition isNumber :: "'f jsvalue \<Rightarrow> bool" where
  "isNumber v = (case v of JSNumber n \<Rightarrow> True | _ \<Rightarrow> False)"

definition isFunction :: "'f jsvalue \<Rightarrow> bool" where
  "isFunction v = (case v of JSFunction f \<Rightarrow> True | _ \<Rightarrow> False)"

text \<open>
  The options object, with the field names of \<^verbatim>\<open>PrivatizeOptions\<close>. The source
  gives it three types in turn: what the caller passed (any value in any field),
  \<^verbatim>\<open>TypedOptions\<close> after validation, \<^verbatim>\<open>FilledOptions\<close> after the defaults.
\<close>

record ('n, 'f, 'c, 'b) Options =
  maxEpsilon :: 'n
  newShadowIterator :: 'f
  maxCallCount :: 'c
  maxConcurrentCalls :: 'c
  debugDangerously :: 'b

type_synonym 'f UserOptions = "('f jsvalue, 'f jsvalue, 'f jsvalue, 'f jsvalue) Options"
type_synonym 'f TypedOptions = "(decimal, 'f, 'f jsvalue, 'f jsvalue) Options"
type_synonym 'f FilledOptions = "(decimal, 'f, decimal, bool) Options"

datatype 'e failure =
    Error string
  | PrivacyBudgetExceededError string
  | Thrown 'e

text \<open>
  \<^verbatim>\<open>validateOptions\<close>. The operators \<^verbatim>\<open><=\<close> and \<^verbatim>\<open><\<close> are reached on numbers
  only, behind \<^verbatim>\<open>!isNumber(...) ||\<close>.
\<close>

definition validateOptions :: "'f UserOptions \<Rightarrow> 'e failure + 'f TypedOptions" where
  "validateOptions options =
     (case maxEpsilon options of
        JSNumber eps \<Rightarrow>
          if lessThanOrEqualTo eps (Fin 0)
          then Inl (Error ''maxEpsilon must be a number > 0'')
          else (case newShadowIterator options of
                  JSFunction iter \<Rightarrow>
                    if maxCallCount options \<noteq> JSUndefined \<and>
                       (case maxCallCount options of
                          JSNumber n \<Rightarrow> lessThan_dec n (Fin 1)
                        | _ \<Rightarrow> True)
                    then Inl (Error ''Please get a valid integer >= 1 for maxCallCount'')
                    else if maxConcurrentCalls options \<noteq> JSUndefined \<and>
                       (case maxConcurrentCalls options of
                          JSNumber n \<Rightarrow> lessThan_dec n (Fin 1)
                        | _ \<Rightarrow> True)
                    then Inl (Error ''Please give a valid integer >= 1 for maxConcurrentCalls'')
                    else Inr \<lparr> maxEpsilon = eps,
                               newShadowIterator = iter,
                               maxCallCount = maxCallCount options,
                               maxConcurrentCalls = maxConcurrentCalls options,
                               debugDangerously =
                                 (if debugDangerously options = JSBoolean True
                                  then JSBoolean True else JSUndefined) \<rparr>
                | _ \<Rightarrow> Inl (Error ''Must provide a newShadowIterator function, please see docs''))
      | _ \<Rightarrow> Inl (Error ''maxEpsilon must be a number > 0''))"

definition fillDefaultOptions :: "'f TypedOptions \<Rightarrow> 'f FilledOptions" where
  "fillDefaultOptions options =
     \<lparr> maxEpsilon = maxEpsilon options,
       newShadowIterator = newShadowIterator options,
       maxCallCount = (case maxCallCount options of JSNumber n \<Rightarrow> n | _ \<Rightarrow> Fin 1),
       maxConcurrentCalls = (case maxConcurrentCalls options of JSNumber n \<Rightarrow> n | _ \<Rightarrow> Fin 4),
       debugDangerously = (debugDangerously options = JSBoolean True) \<rparr>"

text \<open>
  What the closure returned by the factory holds: the sensitive function, the
  filled options, \<^verbatim>\<open>maxEpsilon\<close> as a Decimal and the per-call \<^verbatim>\<open>epsilon\<close>. Its one
  variable, \<^verbatim>\<open>epsilonSoFar\<close>, starts at 0 and is passed to every invocation, which
  returns its new value.
\<close>

record ('d, 'e, 'r) PrivatizedFunction =
  the_probDistFunc :: "'r \<Rightarrow> decimal \<Rightarrow> decimal \<Rightarrow> decimal"
  the_sensitiveFunction :: "('d, 'e) SensitiveFunction"
  the_options :: "('d \<Rightarrow> 'd Iterator) FilledOptions"
  the_maxEpsilon :: decimal
  the_epsilon :: decimal

definition privatizeFactory ::
  "nat \<Rightarrow> ('r \<Rightarrow> decimal \<Rightarrow> decimal \<Rightarrow> decimal) \<Rightarrow> ('d, 'e) SensitiveFunction
     \<Rightarrow> ('d \<Rightarrow> 'd Iterator) UserOptions \<Rightarrow> 'e failure + ('d, 'e, 'r) PrivatizedFunction" where
  "privatizeFactory p probDistFunc sensitiveFunction userOptions =
     (case validateOptions userOptions of
        Inl err \<Rightarrow> Inl err
      | Inr validatedOptions \<Rightarrow>
          (let options = fillDefaultOptions validatedOptions;
               maxEpsilon' = maxEpsilon options;
               epsilon = dividedBy p maxEpsilon' (maxCallCount options)
           in Inr \<lparr> the_probDistFunc = probDistFunc,
                     the_sensitiveFunction = sensitiveFunction,
                     the_options = options,
                     the_maxEpsilon = maxEpsilon',
                     the_epsilon = epsilon \<rparr>))"

definition epsilonSoFar_initial :: decimal where
  "epsilonSoFar_initial = Fin 0"

text \<open>
  The result object, before the conversion of its Decimal fields to numbers
  (\<^verbatim>\<open>toNumber\<close>, the nearest double). \<^verbatim>\<open>percentBudgetUsed\<close>, the double quotient
  \<^verbatim>\<open>1.0 / options.maxCallCount\<close>, is machine floating point and is left out. The two
  debug fields are there only under \<^verbatim>\<open>debugDangerously\<close>.
\<close>

record PrivateResult =
  epsilonBudgetUsed :: decimal
  result :: decimal
  noiseAdded :: "decimal option"
  privateResult :: "decimal option"

text \<open>
  One invocation of the returned function at precision \<open>p\<close>, with the draw \<open>rnd\<close>
  of the random source: the outcome (None when the call never settles) and the
  new value of \<^verbatim>\<open>epsilonSoFar\<close>.
\<close>

definition privatizedFunction ::
  "nat \<Rightarrow> ('d, 'e, 'r) PrivatizedFunction \<Rightarrow> decimal \<Rightarrow> 'r \<Rightarrow> 'd
     \<Rightarrow> ('e failure + PrivateResult) option \<times> decimal" where
  "privatizedFunction p h epsilonSoFar rnd dataset =
     (let epsilonSoFar' = plus_dec p epsilonSoFar (the_epsilon h)
      in if greaterThan_dec epsilonSoFar' (the_maxEpsilon h)
         then (Some (Inl (PrivacyBudgetExceededError ''Exceeded max privacy budget'')),
               epsilonSoFar')
         else
           (case calculateSensitivity p (the_sensitiveFunction h)
                   (newShadowIterator (the_options h)) dataset
                   (maxConcurrentCalls (the_options h)) of
              None \<Rightarrow> None
            | Some (Inl e) \<Rightarrow> Some (Inl (Thrown e))
            | Some (Inr sensitivity) \<Rightarrow>
                (case the_sensitiveFunction h dataset of
                   Inl e \<Rightarrow> Some (Inl (Thrown e))
                 | Inr sensitiveResult \<Rightarrow>
                     (let noise = the_probDistFunc h rnd sensitivity (the_epsilon h);
                          noisyResult = plus_dec p sensitiveResult noise
                      in Some (Inr \<lparr> epsilonBudgetUsed = the_epsilon h,
                                       result = noisyResult,
                                       noiseAdded =
                                         (if debugDangerously (the_options h)
                                          then Some noise else None),
                                       privateResult =
                                         (if debugDangerously (the_options h)
                                          then Some sensitiveResult else None) \<rparr>))),
            epsilonSoFar'))"

text \<open>
  \<^verbatim>\<open>privatize\<close> of \<^verbatim>\<open>index.ts\<close>: the factory on the Laplace mechanism, under the
  precision that \<^verbatim>\<open>index.ts\<close> sets.
\<close>

definition privatize ::
  "('d, 'e) SensitiveFunction \<Rightarrow> ('d \<Rightarrow> 'd Iterator) UserOptions
     \<Rightarrow> 'e failure + ('d, 'e, decimal) PrivatizedFunction" where
  "privatize = privatizeFactory 25 (laplaceProbDistribution 25)"

text \<open>
  \<^verbatim>\<open>epsilonSoFar\<close> after \<open>n\<close> invocations: every invocation, whatever its outcome,
  leaves the sum of the old value and \<^verbatim>\<open>epsilon\<close>.
\<close>

fun epsilonSoFar_after :: "nat \<Rightarrow> ('d, 'e, 'r) PrivatizedFunction \<Rightarrow> nat \<Rightarrow> decimal" where
  "epsilonSoFar_after p h 0 = epsilonSoFar_initial"
| "epsilonSoFar_after p h (Suc n) = plus_dec p (epsilonSoFar_after p h n) (the_epsilon h)"

section \<open>Properties\<close>

lemma ndigits_small: "n < 10 \<Longrightarrow> ndigits n = 1"
  by (subst ndigits.simps) simp

lemma ndigits_large: "10 \<le> n \<Longrightarrow> ndigits n = Suc (ndigits (n div 10))"
  by (subst ndigits.simps) simp

subsection \<open>Rounding to significant digits\<close>

lemma ndigits_pos: "0 < ndigits n"
  by (subst ndigits.simps) simp

lemma ndigits_upper: "n < 10 ^ ndigits n"
proof (induction n rule: ndigits.induct)
  case (1 n)
  show ?case
  proof (cases "n < 10")
    case True
    then show ?thesis by (simp add: ndigits_small)
  next
    case False
    then have "n div 10 < 10 ^ ndigits (n div 10)" using 1 by simp
    then have "n < 10 * 10 ^ ndigits (n div 10)" by linarith
    then show ?thesis using False by (simp add: ndigits_large)
  qed
qed

lemma ndigits_lower: "0 < n \<Longrightarrow> 10 ^ (ndigits n - 1) \<le> n"
proof (induction n rule: ndigits.induct)
  case (1 n)
  show ?case
  proof (cases "n < 10")
    case True
    then show ?thesis using 1(2) by (simp add: ndigits_small)
  next
    case False
    then have pos: "0 < n div 10" by simp
    have "10 ^ (ndigits (n div 10) - 1) \<le> n div 10" using 1(1) [OF False pos] .
    then have "10 * 10 ^ (ndigits (n div 10) - 1) \<le> n" by linarith
    moreover have "10 * 10 ^ (ndigits (n div 10) - 1) = (10::nat) ^ ndigits (n div 10)"
      using ndigits_pos [of "n div 10"] by (cases "ndigits (n div 10)") simp_all
    ultimately show ?thesis using False by (simp add: ndigits_large)
  qed
qed

lemma real_succ_le_pow: "real n + 1 \<le> (10::real) ^ ndigits n"
proof -
  have "Suc n \<le> 10 ^ ndigits n" using ndigits_upper [of n] by simp
  then have "real (Suc n) \<le> real (10 ^ ndigits n)" by (simp only: of_nat_le_iff)
  then show ?thesis by simp
qed

lemma dexp_lower: assumes "0 < x" shows "10 powi dexp x \<le> x"
proof (cases "1 \<le> x")
  case True
  define n where "n = nat \<lfloor>x\<rfloor>"
  have n1: "0 < n" using True by (simp add: n_def)
  have "real n \<le> x" using True by (simp add: n_def)
  moreover have "(10::real) ^ (ndigits n - 1) \<le> real n"
    using ndigits_lower [OF n1] by (metis of_nat_le_iff of_nat_power of_nat_numeral)
  moreover have "dexp x = int (ndigits n - 1)"
    using True ndigits_pos [of n] by (simp add: dexp_def n_def)
  ultimately show ?thesis by (simp only: power_int_of_nat; linarith?)
next
  case False
  define n where "n = nat (\<lceil>1 / x\<rceil> - 1)"
  have y: "1 < 1 / x" using False assms by simp
  then have c2: "2 \<le> \<lceil>1 / x\<rceil>" by linarith
  have up: "1 / x \<le> real n + 1" using c2 by (simp add: n_def; linarith)
  have "real n + 1 \<le> (10::real) ^ ndigits n"
    by (rule real_succ_le_pow)
  then have "1 / x \<le> 10 ^ ndigits n" using up by linarith
  then have "1 / 10 ^ ndigits n \<le> x"
    using assms by (simp add: field_simps)
  moreover have "dexp x = - int (ndigits n)" using False by (simp add: dexp_def n_def)
  ultimately show ?thesis by (simp add: power_int_minus_divide)
qed

lemma dexp_upper: assumes "0 < x" shows "x < 10 powi (dexp x + 1)"
proof (cases "1 \<le> x")
  case True
  define n where "n = nat \<lfloor>x\<rfloor>"
  have "x < real n + 1" using True by (simp add: n_def; linarith)
  moreover have "real n + 1 \<le> (10::real) ^ ndigits n"
    by (rule real_succ_le_pow)
  moreover have "dexp x + 1 = int (ndigits n)"
    using True by (simp add: dexp_def n_def)
  ultimately show ?thesis by (simp only: power_int_of_nat; linarith?)
next
  case False
  define n where "n = nat (\<lceil>1 / x\<rceil> - 1)"
  have y: "1 < 1 / x" using False assms by simp
  then have c2: "2 \<le> \<lceil>1 / x\<rceil>" by linarith
  then have n1: "0 < n" by (simp add: n_def)
  have lo: "real n < 1 / x" using c2 by (simp add: n_def; linarith)
  have "(10::real) ^ (ndigits n - 1) \<le> real n"
    using ndigits_lower [OF n1] by (metis of_nat_le_iff of_nat_power of_nat_numeral)
  then have "10 ^ (ndigits n - 1) < 1 / x" using lo by linarith
  then have "x < 1 / 10 ^ (ndigits n - 1)"
    using assms by (simp add: field_simps)
  moreover have "dexp x + 1 = - int (ndigits n - 1)"
    using False ndigits_pos [of n] by (simp add: dexp_def n_def)
  ultimately show ?thesis by (simp add: power_int_minus_divide)
qed

lemma quantum_pos: "0 < quantum p x"
  by (simp add: quantum_def zero_less_power_int)

lemma quantum_split: "10 powi dexp \<bar>x\<bar> = 10 ^ (p - 1) * quantum p x" if "1 \<le> p"
proof -
  have "dexp \<bar>x\<bar> = int (p - 1) + (dexp \<bar>x\<bar> - int p + 1)" using that by simp
  then have "(10::real) powi dexp \<bar>x\<bar> = 10 powi int (p - 1) * 10 powi (dexp \<bar>x\<bar> - int p + 1)"
    by (metis power_int_add zero_neq_numeral)
  then show ?thesis by (simp add: quantum_def)
qed

lemma quantum_split_up: "10 powi (dexp \<bar>x\<bar> + 1) = 10 ^ p * quantum p x"
proof -
  have "dexp \<bar>x\<bar> + 1 = int p + (dexp \<bar>x\<bar> - int p + 1)" by simp
  then have "(10::real) powi (dexp \<bar>x\<bar> + 1) = 10 powi int p * 10 powi (dexp \<bar>x\<bar> - int p + 1)"
    by (metis power_int_add zero_neq_numeral)
  then show ?thesis by (simp add: quantum_def)
qed

lemma scaled_lower: assumes "0 < x" and "1 \<le> p" shows "10 ^ (p - 1) \<le> x / quantum p x"
proof -
  have "10 ^ (p - 1) * quantum p x \<le> x"
    using dexp_lower [OF assms(1)] quantum_split [OF assms(2), of x] assms(1) by simp
  then show ?thesis using quantum_pos [of p x] by (simp add: pos_le_divide_eq)
qed

lemma scaled_upper: assumes "0 < x" shows "x / quantum p x < 10 ^ p"
proof -
  have "x < 10 ^ p * quantum p x"
    using dexp_upper [OF assms] quantum_split_up [of x p] assms by simp
  then show ?thesis using quantum_pos [of p x] by (simp add: pos_divide_less_eq)
qed

lemma round_sig_pos_eq:
  "0 < x \<Longrightarrow> round_sig p x = of_int \<lfloor>x / quantum p x + 1 / 2\<rfloor> * quantum p x"
  by (simp add: round_sig_def)

lemma round_sig_zero [simp]: "round_sig p 0 = 0"
  by (simp add: round_sig_def)

lemma round_sig_nonneg: assumes "0 \<le> x" shows "0 \<le> round_sig p x"
proof (cases "x = 0")
  case True
  then show ?thesis by simp
next
  case False
  then have pos: "0 < x" using assms by simp
  have "0 \<le> x / quantum p x + 1 / 2" using pos quantum_pos [of p x] by simp
  then have "0 \<le> \<lfloor>x / quantum p x + 1 / 2\<rfloor>" by simp
  then show ?thesis using quantum_pos [of p x] by (simp add: round_sig_pos_eq [OF pos])
qed

lemma round_sig_lower:
  assumes "0 < x" and "1 \<le> p" shows "10 powi dexp x \<le> round_sig p x"
proof -
  have "of_int (10 ^ (p - 1)) \<le> x / quantum p x" using scaled_lower [OF assms] by simp
  then have "10 ^ (p - 1) \<le> \<lfloor>x / quantum p x\<rfloor>" by (simp only: le_floor_iff)
  also have "\<dots> \<le> \<lfloor>x / quantum p x + 1 / 2\<rfloor>" by (rule floor_mono) simp
  finally have "of_int (10 ^ (p - 1)) * quantum p x \<le> of_int \<lfloor>x / quantum p x + 1 / 2\<rfloor> * quantum p x"
    using quantum_pos [of p x] by (simp only: mult_le_cancel_right_pos of_int_le_iff)
  then show ?thesis
    using quantum_split [OF assms(2), of x] assms(1) by (simp add: round_sig_pos_eq)
qed

lemma multiple_of_quantum:
  assumes "0 < (s::real)" and "s = of_int m * 10 powi j" and "\<bar>m\<bar> < 10 ^ p" and "10 powi k \<le> s"
  shows "\<exists>M::int. s = of_int M * 10 powi (k - int p + 1)"
proof -
  have p10: "0 < (10::real) powi j" by (simp add: zero_less_power_int)
  have mpos: "0 < m" using assms(1,2) p10 by (simp add: zero_less_mult_iff)
  then have "real_of_int m < 10 ^ p" using assms(3)
    by (metis abs_of_pos of_int_less_iff of_int_numeral of_int_power)
  then have "s < 10 ^ p * 10 powi j" using assms(2) p10 by simp
  also have "\<dots> = 10 powi (int p + j)"
    by (simp add: power_int_add)
  finally have "(10::real) powi k < 10 powi (int p + j)" using assms(4) by simp
  then have "k < int p + j"
    by (metis linorder_not_le one_le_numeral power_int_increasing)
  then have e: "0 \<le> j - (k - int p + 1)" by simp
  define e where "e = nat (j - (k - int p + 1))"
  have "j = int e + (k - int p + 1)" using e by (simp add: e_def)
  then have "(10::real) powi j = 10 powi int e * 10 powi (k - int p + 1)"
    by (metis power_int_add zero_neq_numeral)
  then have "s = of_int (m * 10 ^ e) * 10 powi (k - int p + 1)"
    using assms(2) by simp
  then show ?thesis ..
qed

lemma round_sig_above_representable:
  assumes "0 \<le> s" and "s \<le> x" and "representable p s" and "1 \<le> p"
  shows "s \<le> round_sig p x"
proof (cases "s = 0")
  case True
  then show ?thesis using round_sig_nonneg [of x p] assms(1,2) by simp
next
  case False
  then have spos: "0 < s" using assms(1) by simp
  then have xpos: "0 < x" using assms(2) by simp
  show ?thesis
  proof (cases "s < 10 powi dexp x")
    case True
    then show ?thesis using round_sig_lower [OF xpos assms(4)] by simp
  next
    case False
    then have ge: "10 powi dexp x \<le> s" by simp
    from assms(3) obtain m j where mj: "s = of_int m * 10 powi j" "\<bar>m\<bar> < 10 ^ p"
      by (auto simp: representable_def)
    from multiple_of_quantum [OF spos mj ge] obtain M :: int
      where M: "s = of_int M * quantum p x"
      using xpos by (auto simp: quantum_def)
    then have "of_int M = s / quantum p x" using quantum_pos [of p x] by simp
    also have "\<dots> \<le> x / quantum p x"
      using assms(2) quantum_pos [of p x] by (simp add: divide_right_mono)
    finally have "M \<le> \<lfloor>x / quantum p x\<rfloor>" by (simp only: le_floor_iff)
    also have "\<dots> \<le> \<lfloor>x / quantum p x + 1 / 2\<rfloor>" by (rule floor_mono) simp
    finally have "of_int M * quantum p x \<le> of_int \<lfloor>x / quantum p x + 1 / 2\<rfloor> * quantum p x"
      using quantum_pos [of p x] by (simp only: mult_le_cancel_right_pos of_int_le_iff)
    then show ?thesis using M by (simp add: round_sig_pos_eq [OF xpos])
  qed
qed

lemma round_sig_representable:
  assumes "0 \<le> x" and "1 \<le> p" shows "representable p (round_sig p x)"
proof (cases "x = 0")
  case True
  have "(0::real) = of_int 0 * 10 powi 0 \<and> \<bar>0::int\<bar> < 10 ^ p" by simp
  then show ?thesis unfolding representable_def True round_sig_zero by blast
next
  case False
  then have xpos: "0 < x" using assms(1) by simp
  define m where "m = \<lfloor>x / quantum p x + 1 / 2\<rfloor>"
  have r: "round_sig p x = of_int m * quantum p x" by (simp add: round_sig_pos_eq [OF xpos] m_def)
  have "x / quantum p x + 1 / 2 < of_int (10 ^ p) + 1" using scaled_upper [OF xpos, of p] by simp
  then have "m < 10 ^ p + 1" unfolding m_def by (simp only: floor_less_iff of_int_add of_int_1)
  then have mle: "m \<le> 10 ^ p" by simp
  have "0 \<le> x / quantum p x + 1 / 2" using xpos quantum_pos [of p x] by simp
  then have m0: "0 \<le> m" by (simp add: m_def)
  show ?thesis
  proof (cases "m = 10 ^ p")
    case True
    have "round_sig p x = of_int 1 * 10 powi (dexp \<bar>x\<bar> + 1)"
      using r True quantum_split_up [of x p] by simp
    moreover have "\<bar>1::int\<bar> < 10 ^ p" using assms(2) by simp
    ultimately show ?thesis unfolding representable_def by blast
  next
    case False
    then have "\<bar>m\<bar> < 10 ^ p" using mle m0 by simp
    then show ?thesis using r unfolding representable_def quantum_def by blast
  qed
qed

lemma round_sig_exact:
  assumes "0 \<le> x" and "representable p x" shows "round_sig p x = x"
proof (cases "x = 0")
  case True
  then show ?thesis by simp
next
  case False
  then have xpos: "0 < x" using assms(1) by simp
  from assms(2) obtain m j where mj: "x = of_int m * 10 powi j" "\<bar>m\<bar> < 10 ^ p"
    by (auto simp: representable_def)
  define Q where "Q = quantum p x"
  have Qpos: "0 < Q" by (simp add: Q_def quantum_pos)
  from multiple_of_quantum [OF xpos mj dexp_lower [OF xpos]] obtain M :: int
    where M: "x = of_int M * Q"
    using xpos by (auto simp: quantum_def Q_def)
  have "x / Q = of_int M" using Qpos by (simp add: M)
  then have "\<lfloor>x / Q + 1 / 2\<rfloor> = M" by simp
  then have "of_int \<lfloor>x / Q + 1 / 2\<rfloor> * Q = x" using M by simp
  then show ?thesis by (simp add: round_sig_pos_eq [OF xpos] Q_def)
qed


lemmas dec_eval = round_sig_def quantum_def dexp_def ndigits_small ndigits_large

lemmas factory_eval = privatizeFactory_def validateOptions_def fillDefaultOptions_def Let_def

subsection \<open>The pull loop on an iterator that ends\<close>

lemma pull_loop_upto:
  assumes "first_done datasetIter n" and "k \<le> n"
  shows "pull_loop func datasetIter k outputs
           = Some (accumulate func (map (\<lambda>j. the_value (datasetIter j)) [k..<Suc n]) outputs)"
  using assms(2)
proof (induction "n - k" arbitrary: k outputs)
  case 0
  then have kn: "k = n" by simp
  have d: "is_done (datasetIter n)" using assms(1) by (simp add: first_done_def)
  show ?case
    unfolding kn
    by (subst pull_loop.simps) (simp add: d Let_def split: sum.splits)
next
  case (Suc m)
  then have lt: "k < n" and m: "m = n - Suc k" and le: "Suc k \<le> n" by simp_all
  have nd: "\<not> is_done (datasetIter k)" using assms(1) lt by (simp add: first_done_def)
  have up: "[k..<Suc n] = k # [Suc k..<Suc n]" using lt by (simp add: upt_conv_Cons)
  have "pull_loop func datasetIter k outputs =
          (case runOnModifiedDataset func (the_value (datasetIter k)) of
             Inl e \<Rightarrow> Some (Inl e)
           | Inr modResult \<Rightarrow>
               pull_loop func datasetIter (Suc k) (minMaxCalculation modResult outputs))"
    by (subst pull_loop.simps) (simp add: nd Let_def split: sum.splits)
  also have "\<dots> =
          (case runOnModifiedDataset func (the_value (datasetIter k)) of
             Inl e \<Rightarrow> Some (Inl e)
           | Inr modResult \<Rightarrow>
               Some (accumulate func (map (\<lambda>j. the_value (datasetIter j)) [Suc k..<Suc n])
                       (minMaxCalculation modResult outputs)))"
    by (simp add: Suc.hyps(1)[OF m le] split: sum.splits del: upt_Suc)
  also have "\<dots> = Some (accumulate func
                        (map (\<lambda>j. the_value (datasetIter j)) (k # [Suc k..<Suc n])) outputs)"
    by (simp split: sum.splits del: upt_Suc)
  finally show ?case by (simp only: up)
qed

lemma pull_loop_first_done:
  "first_done datasetIter n \<Longrightarrow>
   pull_loop func datasetIter 0 outputs = Some (accumulate func (pulled datasetIter (Suc n)) outputs)"
  using pull_loop_upto [of datasetIter n 0] by (simp add: pulled_def)

lemma accumulate_append:
  "accumulate func (xs @ ys) outputs =
     (case accumulate func xs outputs of Inl e \<Rightarrow> Inl e | Inr outputs' \<Rightarrow> accumulate func ys outputs')"
  by (induction xs arbitrary: outputs) (auto split: sum.splits)

lemma accumulate_absent:
  "\<forall>v \<in> set vs. v = None \<Longrightarrow> accumulate func vs outputs = Inr outputs"
  by (induction vs arbitrary: outputs) (auto simp: runOnModifiedDataset_def minMaxCalculation_def)

lemma calculateSensitivity_first_done:
  "first_done (newSubsetIter dataset) n \<Longrightarrow>
   calculateSensitivity p func newSubsetIter dataset maxConcurrencyCount =
     (case accumulate func (pulled (newSubsetIter dataset) (Suc n)) (PosInf, NegInf) of
        Inl e \<Rightarrow> Some (Inl e)
      | Inr outputs \<Rightarrow> Some (Inr (minus_dec p (snd outputs) (fst outputs))))"
  by (simp add: calculateSensitivity_def pull_loop_first_done Let_def split: sum.splits prod.splits)

text \<open>
  C2 (amended). The claim: when the producer yields no shadow dataset,
  \<^verbatim>\<open>calculateSensitivity\<close> returns +infinity. The code returns
  \<^verbatim>\<open>maxOutput.minus(minOutput)\<close> with \<^verbatim>\<open>maxOutput\<close> still -Infinity and \<^verbatim>\<open>minOutput\<close>
  still +Infinity, which is -Infinity. What holds: for every sensitive function
  and concurrency cap, on an iterator that reports \<^verbatim>\<open>done\<close> at some call and
  delivers no value up to it, the result is -Infinity, whose absolute value (the
  magnitude that the test of the repository checks) is +Infinity.
\<close>

theorem calculateSensitivity_no_shadow_datasets:
  assumes "first_done (newSubsetIter dataset) n"
    and "\<forall>j\<le>n. the_value (newSubsetIter dataset j) = None"
  shows "calculateSensitivity p func newSubsetIter dataset maxConcurrencyCount = Some (Inr NegInf)
         \<and> abs_dec NegInf = PosInf"
proof -
  have "\<forall>v \<in> set (pulled (newSubsetIter dataset) (Suc n)). v = None"
    using assms(2) by (auto simp: pulled_def)
  then show ?thesis
    using assms(1) by (simp add: calculateSensitivity_first_done accumulate_absent)
qed

subsection \<open>The iterators of the reference adapters\<close>

lemma map2_first: "length xs = length ys \<Longrightarrow> map (\<lambda>(el, index). el) (zip xs ys) = xs"
  by (induction xs ys rule: list_induct2) auto

lemma map_arr_copy: "map_arr (newArrayView srcArray) (\<lambda>el index. el) = srcArray"
  by (simp add: map2_first)

lemma newArrayViewSubsetIterator_call:
  "newArrayViewSubsetIterator (newArrayView srcArray) index =
     IteratorResult (int index \<ge> int (length srcArray) - 1)
       (if index \<ge> length srcArray then None
        else Some (newIgnoreIndexArrayView (newArrayView srcArray) index))"
  by (simp add: newArrayViewSubsetIterator_def map2_first Let_def)

lemma first_done_array:
  "first_done (newArrayViewSubsetIterator (newArrayView srcArray)) (length srcArray - 1)"
  by (auto simp: first_done_def newArrayViewSubsetIterator_call)

lemma pulled_Suc: "pulled datasetIter (Suc n) = pulled datasetIter n @ [the_value (datasetIter n)]"
  by (simp add: pulled_def)

lemma pulled_array:
  "n \<le> length srcArray \<Longrightarrow>
   pulled (newArrayViewSubsetIterator (newArrayView srcArray)) n =
     map (\<lambda>index. Some (newIgnoreIndexArrayView (newArrayView srcArray) index)) [0..<n]"
  by (simp add: pulled_def newArrayViewSubsetIterator_call)





lemma fold_collect:
  "fold (\<lambda>(key, val) mapped. mapped @ [g val key]) kvs acc = acc @ map (\<lambda>(key, val). g val key) kvs"
  by (induction kvs arbitrary: acc) auto

text \<open>
  The empty array: its iterator reports \<^verbatim>\<open>done\<close> at the first call, with no
  value, and the estimator returns -Infinity, not +Infinity.
\<close>

theorem calculateSensitivity_empty_array_is_neginf:
  "calculateSensitivity 25 (Inr \<circ> sumFunction :: int ArrayView \<Rightarrow> unit + decimal)
      (newShadowIterator_arr (newArrayView [])) (newArrayView []) (Fin 1) = Some (Inr NegInf)
   \<and> calculateSensitivity 25 (Inr \<circ> sumFunction :: int ArrayView \<Rightarrow> unit + decimal)
      (newShadowIterator_arr (newArrayView [])) (newArrayView []) (Fin 1) \<noteq> Some (Inr PosInf)"
proof -
  have fd: "first_done (newShadowIterator_arr (newArrayView ([]::int list)) (newArrayView ([]::int list))) 0"
    using first_done_array [of "[]::int list"] by (simp add: newShadowIterator_arr_def)
  show ?thesis
    unfolding calculateSensitivity_first_done
            [of "newShadowIterator_arr (newArrayView ([]::int list))" "newArrayView []" 0, OF fd]
    by (simp add: pulled_def newShadowIterator_arr_def
          newArrayViewSubsetIterator_call runOnModifiedDataset_def minMaxCalculation_def)
qed

theorem calculateSensitivity_no_shadow_datasets_witness:
  "first_done (newShadowIterator_arr (newArrayView ([]::int list)) (newArrayView ([]::int list))) 0
   \<and> calculateSensitivity 25 (Inr \<circ> sumFunction :: int ArrayView \<Rightarrow> unit + decimal)
      (newShadowIterator_arr (newArrayView [])) (newArrayView []) (Fin 1) = Some (Inr NegInf)
   \<and> abs_dec NegInf = PosInf"
proof -
  have fd: "first_done (newShadowIterator_arr (newArrayView ([]::int list)) (newArrayView ([]::int list))) 0"
    using first_done_array [of "[]::int list"] by (simp add: newShadowIterator_arr_def)
  have nv: "\<forall>j\<le>0. the_value (newShadowIterator_arr (newArrayView ([]::int list)) (newArrayView ([]::int list)) j) = None"
    by (simp add: newShadowIterator_arr_def newArrayViewSubsetIterator_call)
  show ?thesis
    using calculateSensitivity_no_shadow_datasets
            [of "newShadowIterator_arr (newArrayView ([]::int list))" "newArrayView []" 0,
             OF fd nv, of 25 "Inr \<circ> sumFunction" "Fin 1"] fd
    by simp
qed

text \<open>
  C5. When the item that carries \<^verbatim>\<open>done\<close> also carries a shadow dataset
  \<open>final\<close>, the function is run on \<open>final\<close> before the loop stops: if it raises,
  the call is rejected with what it raised, and if it returns \<open>r\<close>, then \<open>r\<close> enters
  the minimum and the maximum of which the result is the difference (\<open>outputs\<close>
  being the minimum and maximum over the values pulled before). The iterator of
  the array adapter is such a sequence: on a non-empty array its first \<^verbatim>\<open>done\<close>
  comes at the call that delivers the last shadow view.
\<close>

theorem calculateSensitivity_evaluates_final_value:
  "(first_done (newSubsetIter dataset) n
      \<and> the_value (newSubsetIter dataset n) = Some final
      \<and> accumulate func (pulled (newSubsetIter dataset) n) (PosInf, NegInf) = Inr outputs
     \<longrightarrow> calculateSensitivity p func newSubsetIter dataset maxConcurrencyCount =
           (case func final of
              Inl e \<Rightarrow> Some (Inl e)
            | Inr r \<Rightarrow> Some (Inr (minus_dec p (max_dec (snd outputs) r) (min_dec (fst outputs) r)))))
   \<and> (srcArray \<noteq> []
     \<longrightarrow> first_done (newArrayViewSubsetIterator (newArrayView srcArray)) (length srcArray - 1)
         \<and> the_value (newArrayViewSubsetIterator (newArrayView srcArray) (length srcArray - 1))
             = Some (newIgnoreIndexArrayView (newArrayView srcArray) (length srcArray - 1)))"
proof (intro conjI impI)
  assume a: "first_done (newSubsetIter dataset) n
      \<and> the_value (newSubsetIter dataset n) = Some final
      \<and> accumulate func (pulled (newSubsetIter dataset) n) (PosInf, NegInf) = Inr outputs"
  then have fd: "first_done (newSubsetIter dataset) n" by simp
  show "calculateSensitivity p func newSubsetIter dataset maxConcurrencyCount =
           (case func final of
              Inl e \<Rightarrow> Some (Inl e)
            | Inr r \<Rightarrow> Some (Inr (minus_dec p (max_dec (snd outputs) r) (min_dec (fst outputs) r))))"
    unfolding calculateSensitivity_first_done [of newSubsetIter dataset n, OF fd]
    using a
    by (simp add: pulled_Suc accumulate_append
          runOnModifiedDataset_def minMaxCalculation_def split: sum.splits)
next
  show "first_done (newArrayViewSubsetIterator (newArrayView srcArray)) (length srcArray - 1)"
    by (rule first_done_array)
next
  assume "srcArray \<noteq> []"
  then have "length srcArray - 1 < length srcArray" by (cases srcArray) simp_all
  then show "the_value (newArrayViewSubsetIterator (newArrayView srcArray) (length srcArray - 1))
             = Some (newIgnoreIndexArrayView (newArrayView srcArray) (length srcArray - 1))"
    by (simp add: newArrayViewSubsetIterator_call)
qed

theorem calculateSensitivity_evaluates_final_value_witness:
  "first_done (newShadowIterator_arr (newArrayView [1, 5 :: int]) (newArrayView [1, 5 :: int])) 1
   \<and> the_value (newShadowIterator_arr (newArrayView [1, 5 :: int]) (newArrayView [1, 5 :: int]) 1)
       = Some (newIgnoreIndexArrayView (newArrayView [1, 5]) 1)
   \<and> accumulate (\<lambda>d. Inr (sumFunction d) :: unit + decimal)
         (pulled (newShadowIterator_arr (newArrayView [1, 5 :: int]) (newArrayView [1, 5 :: int])) 1)
         (PosInf, NegInf) = Inr (Fin 5, Fin 5)
   \<and> calculateSensitivity 25 (\<lambda>d. Inr (sumFunction d) :: unit + decimal)
         (newShadowIterator_arr (newArrayView [1, 5 :: int])) (newArrayView [1, 5 :: int]) (Fin 4)
       = Some (Inr (Fin 4))
   \<and> first_done (newArrayViewSubsetIterator (newArrayView [1, 5 :: int])) 1"
proof -
  let ?view = "newArrayView [1, 5 :: int]"
  let ?it = "newShadowIterator_arr ?view :: int ArrayView \<Rightarrow> int ArrayView Iterator"
  let ?f = "\<lambda>d. Inr (sumFunction d) :: unit + decimal"
  have fd: "first_done (?it ?view) 1"
    using first_done_array [of "[1, 5 :: int]"] by (simp add: newShadowIterator_arr_def)
  have fv: "the_value (?it ?view 1) = Some (newIgnoreIndexArrayView ?view 1)"
    by (simp add: newShadowIterator_arr_def newArrayViewSubsetIterator_call)
  have ac: "accumulate ?f (pulled (?it ?view) 1) (PosInf, NegInf) = Inr (Fin 5, Fin 5)"
    by (simp add: pulled_def newShadowIterator_arr_def newArrayViewSubsetIterator_call
          runOnModifiedDataset_def minMaxCalculation_def min_dec_def max_dec_def
          sumFunction_def upt_rec)
  have s1: "sumFunction (newIgnoreIndexArrayView ?view (Suc 0)) = Fin 1"
    by (simp add: sumFunction_def upt_rec)
  have "calculateSensitivity 25 ?f ?it ?view (Fin 4) = Some (Inr (Fin 4))"
    using calculateSensitivity_evaluates_final_value [of ?it ?view 1 "newIgnoreIndexArrayView ?view 1"
                ?f "(Fin 5, Fin 5)" 25 "Fin 4" "[1, 5 :: int]"] fd fv ac
    by (simp add: s1 min_dec_def max_dec_def dec_eval)
  then show ?thesis
    using fd fv ac first_done_array [of "[1, 5 :: int]"] by simp
qed

subsection \<open>The shadow views of a key-value object\<close>



subsection \<open>Validation of the options\<close>

text \<open>
  C8 (the code departs from the claim). The claim: the factory raises a
  configuration error exactly when the configuration is structurally invalid, in
  particular for every supplied \<^verbatim>\<open>maxCallCount\<close> that is not an integer, such as
  1.5. The code tests \<^verbatim>\<open>isNumber\<close> and \<^verbatim>\<open>< 1\<close> only, under an error message that
  asks for "a valid integer >= 1": with \<^verbatim>\<open>maxCallCount\<close> = 1.5 validation
  succeeds and the factory returns a handle, whose per-call epsilon is
  \<^verbatim>\<open>maxEpsilon\<close> / 1.5.
\<close>

theorem validateOptions_accepts_fractional_maxCallCount:
  "validateOptions
     \<lparr> maxEpsilon = JSNumber (Fin 1), newShadowIterator = JSFunction iter,
       maxCallCount = JSNumber (Fin (3 / 2)), maxConcurrentCalls = JSUndefined,
       debugDangerously = JSUndefined \<rparr>
   = Inr \<lparr> maxEpsilon = Fin 1, newShadowIterator = iter,
           maxCallCount = JSNumber (Fin (3 / 2)), maxConcurrentCalls = JSUndefined,
           debugDangerously = JSUndefined \<rparr>
   \<and> privatizeFactory p probDistFunc sensitiveFunction
       \<lparr> maxEpsilon = JSNumber (Fin 1), newShadowIterator = JSFunction iter,
         maxCallCount = JSNumber (Fin (3 / 2)), maxConcurrentCalls = JSUndefined,
         debugDangerously = JSUndefined \<rparr>
     = Inr \<lparr> the_probDistFunc = probDistFunc,
             the_sensitiveFunction = sensitiveFunction,
             the_options =
               \<lparr> maxEpsilon = Fin 1, newShadowIterator = iter, maxCallCount = Fin (3 / 2),
                 maxConcurrentCalls = Fin 4, debugDangerously = False \<rparr>,
             the_maxEpsilon = Fin 1,
             the_epsilon = Fin (round_sig p (2 / 3)) \<rparr>"
  by (simp add: factory_eval)

subsection \<open>The budget of a handle\<close>

text \<open>
  C1 (the code departs from the claim). The claim: with \<^verbatim>\<open>maxCallCount\<close> = k the
  handle of \<^verbatim>\<open>privatize\<close> succeeds on exactly k successive invocations. With
  \<^verbatim>\<open>maxEpsilon\<close> = 5 and \<^verbatim>\<open>maxCallCount\<close> = 3 the per-call epsilon is 5/3 rounded up
  to 25 digits, 1.666666666666666666666667; the counter is within the budget
  after one and two invocations, and after the third it is
  5.000000000000000000000001, above 5: the third invocation raises
  \<^verbatim>\<open>PrivacyBudgetExceededError\<close>, whatever the function, the dataset and the draw.
\<close>

theorem privatize_third_of_three_calls_exceeds_budget:
  "\<exists>h. privatize sensitiveFunction
         \<lparr> maxEpsilon = JSNumber (Fin 5), newShadowIterator = JSFunction iter,
           maxCallCount = JSNumber (Fin 3), maxConcurrentCalls = JSUndefined,
           debugDangerously = JSUndefined \<rparr> = Inr h
     \<and> the_epsilon h = Fin (1666666666666666666666667 / 1000000000000000000000000)
     \<and> epsilonSoFar_after 25 h 1 = Fin (1666666666666666666666667 / 1000000000000000000000000)
     \<and> \<not> greaterThan_dec (epsilonSoFar_after 25 h 1) (the_maxEpsilon h)
     \<and> epsilonSoFar_after 25 h 2 = Fin (3333333333333333333333334 / 1000000000000000000000000)
     \<and> \<not> greaterThan_dec (epsilonSoFar_after 25 h 2) (the_maxEpsilon h)
     \<and> privatizedFunction 25 h (epsilonSoFar_after 25 h 2) rnd dataset
         = (Some (Inl (PrivacyBudgetExceededError ''Exceeded max privacy budget'')),
            Fin (5000000000000000000000001 / 1000000000000000000000000))"
  by (simp add: privatize_def factory_eval privatizedFunction_def epsilonSoFar_initial_def
        greaterThan_dec_def numeral_2_eq_2 dec_eval)

subsection \<open>Failures of the sensitive function\<close>

lemma runOnModifiedDataset_raises:
  "runOnModifiedDataset func v = Inl e \<Longrightarrow> \<exists>d. v = Some d \<and> func d = Inl e"
  by (cases v) (simp_all add: runOnModifiedDataset_def split: sum.splits)

lemma pull_loop_raises:
  assumes "\<forall>i<j. \<not> is_done (datasetIter i)"
    and "the_value (datasetIter j) = Some shadow" and "func shadow = Inl e0"
    and "k \<le> j"
  shows "\<exists>e d. func d = Inl e \<and> pull_loop func datasetIter k outputs = Some (Inl e)"
  using assms(4)
proof (induction "j - k" arbitrary: k outputs)
  case 0
  then have kj: "k = j" by simp
  have "pull_loop func datasetIter j outputs = Some (Inl e0)"
    apply (subst pull_loop.simps)
    apply (simp add: assms(2,3) runOnModifiedDataset_def)
    done
  with assms(3) kj show ?case by (intro exI [of _ e0] exI [of _ shadow]) simp
next
  case (Suc m)
  then have lt: "k < j" and m: "m = j - Suc k" and le: "Suc k \<le> j" by simp_all
  have nd: "\<not> is_done (datasetIter k)" using assms(1) lt by simp
  show ?case
  proof (cases "runOnModifiedDataset func (the_value (datasetIter k))")
    case (Inl e)
    have "pull_loop func datasetIter k outputs = Some (Inl e)"
      apply (subst pull_loop.simps)
      apply (simp add: Inl)
      done
    moreover from runOnModifiedDataset_raises [OF Inl] obtain d where "func d = Inl e"
      by (elim exE conjE)
    ultimately show ?thesis by (intro exI [of _ e] exI [of _ d]) simp
  next
    case (Inr modResult)
    have "pull_loop func datasetIter k outputs
                 = pull_loop func datasetIter (Suc k) (minMaxCalculation modResult outputs)"
      apply (subst pull_loop.simps)
      apply (simp add: nd Let_def Inr)
      done
    then show ?thesis
      using Suc.hyps(1) [OF m le, of "minMaxCalculation modResult outputs"] by simp
  qed
qed

lemma privatizedFunction_debits [simp]:
  "snd (privatizedFunction p h epsilonSoFar rnd dataset) = plus_dec p epsilonSoFar (the_epsilon h)"
  by (simp add: privatizedFunction_def Let_def)

text \<open>
  C9. In an invocation that is within the budget: when the sensitive function
  raises on a shadow dataset that the estimator pulls (no earlier item carried
  \<^verbatim>\<open>done\<close>), the invocation is rejected with a failure that the function raised;
  when the estimation succeeds and the function raises on the original dataset,
  the invocation is rejected with that failure. Either way the counter has been
  debited, and the next invocation adds its own epsilon to the debited counter.
\<close>

theorem sensitive_function_failure_propagates:
  assumes "\<not> greaterThan_dec (plus_dec p epsilonSoFar (the_epsilon h)) (the_maxEpsilon h)"
  shows "((\<forall>i<j. \<not> is_done (newShadowIterator (the_options h) dataset i))
           \<and> the_value (newShadowIterator (the_options h) dataset j) = Some shadow
           \<and> the_sensitiveFunction h shadow = Inl e0
          \<longrightarrow> (\<exists>e d. the_sensitiveFunction h d = Inl e
                 \<and> privatizedFunction p h epsilonSoFar rnd dataset
                     = (Some (Inl (Thrown e)), plus_dec p epsilonSoFar (the_epsilon h))))
       \<and> (calculateSensitivity p (the_sensitiveFunction h) (newShadowIterator (the_options h))
              dataset (maxConcurrentCalls (the_options h)) = Some (Inr sensitivity)
           \<and> the_sensitiveFunction h dataset = Inl e1
          \<longrightarrow> privatizedFunction p h epsilonSoFar rnd dataset
                 = (Some (Inl (Thrown e1)), plus_dec p epsilonSoFar (the_epsilon h)))
       \<and> snd (privatizedFunction p h (snd (privatizedFunction p h epsilonSoFar rnd dataset))
                 rnd' dataset')
           = plus_dec p (plus_dec p epsilonSoFar (the_epsilon h)) (the_epsilon h)"
proof (intro conjI impI)
  assume a: "(\<forall>i<j. \<not> is_done (newShadowIterator (the_options h) dataset i))
           \<and> the_value (newShadowIterator (the_options h) dataset j) = Some shadow
           \<and> the_sensitiveFunction h shadow = Inl e0"
  then have "\<exists>e d. the_sensitiveFunction h d = Inl e \<and>
      pull_loop (the_sensitiveFunction h) (newShadowIterator (the_options h) dataset) 0
         (PosInf, NegInf) = Some (Inl e)"
    by (intro pull_loop_raises [of j "newShadowIterator (the_options h) dataset" shadow
             "the_sensitiveFunction h" e0 0 "(PosInf, NegInf)"]) simp_all
  then obtain e d where ed: "the_sensitiveFunction h d = Inl e"
      "pull_loop (the_sensitiveFunction h) (newShadowIterator (the_options h) dataset) 0
         (PosInf, NegInf) = Some (Inl e)"
    by (elim exE conjE)
  then have "privatizedFunction p h epsilonSoFar rnd dataset
                     = (Some (Inl (Thrown e)), plus_dec p epsilonSoFar (the_epsilon h))"
    using assms by (simp add: privatizedFunction_def calculateSensitivity_def Let_def)
  with ed(1) show "\<exists>e d. the_sensitiveFunction h d = Inl e
                 \<and> privatizedFunction p h epsilonSoFar rnd dataset
                     = (Some (Inl (Thrown e)), plus_dec p epsilonSoFar (the_epsilon h))"
    by (intro exI [of _ e] exI [of _ d]) simp
next
  assume "calculateSensitivity p (the_sensitiveFunction h) (newShadowIterator (the_options h))
              dataset (maxConcurrentCalls (the_options h)) = Some (Inr sensitivity)
           \<and> the_sensitiveFunction h dataset = Inl e1"
  then show "privatizedFunction p h epsilonSoFar rnd dataset
                 = (Some (Inl (Thrown e1)), plus_dec p epsilonSoFar (the_epsilon h))"
    using assms by (simp add: privatizedFunction_def Let_def)
next
  show "snd (privatizedFunction p h (snd (privatizedFunction p h epsilonSoFar rnd dataset))
                 rnd' dataset')
           = plus_dec p (plus_dec p epsilonSoFar (the_epsilon h)) (the_epsilon h)"
    by simp
qed

theorem sensitive_function_failure_propagates_witness:
  "\<not> greaterThan_dec (plus_dec 25 (Fin 0) (Fin 1)) (Fin 1)
   \<and> privatizedFunction 25
        \<lparr> the_probDistFunc = laplaceProbDistribution 25,
          the_sensitiveFunction =
            (\<lambda>d. case d of newArrayView xs \<Rightarrow> Inr (Fin 0) | newIgnoreIndexArrayView v i \<Rightarrow> Inl ()),
          the_options =
            \<lparr> maxEpsilon = Fin 1,
              newShadowIterator = newShadowIterator_arr (newArrayView [1, 2 :: int]),
              maxCallCount = Fin 1, maxConcurrentCalls = Fin 4, debugDangerously = False \<rparr>,
          the_maxEpsilon = Fin 1, the_epsilon = Fin 1 \<rparr>
        (Fin 0) (Fin (3 / 4)) (newArrayView [1, 2 :: int])
       = (Some (Inl (Thrown ())), Fin 1)
   \<and> privatizedFunction 25
        \<lparr> the_probDistFunc = laplaceProbDistribution 25,
          the_sensitiveFunction =
            (\<lambda>d. case d of newArrayView xs \<Rightarrow> Inl () | newIgnoreIndexArrayView v i \<Rightarrow> Inr (Fin 0)),
          the_options =
            \<lparr> maxEpsilon = Fin 1,
              newShadowIterator = newShadowIterator_arr (newArrayView [1, 2 :: int]),
              maxCallCount = Fin 1, maxConcurrentCalls = Fin 4, debugDangerously = False \<rparr>,
          the_maxEpsilon = Fin 1, the_epsilon = Fin 1 \<rparr>
        (Fin 0) (Fin (3 / 4)) (newArrayView [1, 2 :: int])
       = (Some (Inl (Thrown ())), Fin 1)"
proof -
  let ?view = "newArrayView [1, 2 :: int]"
  let ?opts = "\<lparr> maxEpsilon = Fin 1,
              newShadowIterator = (newShadowIterator_arr ?view :: int ArrayView \<Rightarrow> int ArrayView Iterator),
              maxCallCount = Fin 1, maxConcurrentCalls = Fin 4, debugDangerously = False \<rparr>"
  let ?f1 = "\<lambda>d. case d of newArrayView xs \<Rightarrow> Inr (Fin 0) | newIgnoreIndexArrayView v i \<Rightarrow> Inl ()"
  let ?f2 = "\<lambda>d. case d of newArrayView xs \<Rightarrow> Inl () | newIgnoreIndexArrayView v i \<Rightarrow> Inr (Fin 0)"
  let ?h1 = "\<lparr> the_probDistFunc = laplaceProbDistribution 25, the_sensitiveFunction = ?f1,
          the_options = ?opts, the_maxEpsilon = Fin 1, the_epsilon = Fin 1 \<rparr>"
  let ?h2 = "\<lparr> the_probDistFunc = laplaceProbDistribution 25, the_sensitiveFunction = ?f2,
          the_options = ?opts, the_maxEpsilon = Fin 1, the_epsilon = Fin 1 \<rparr>"
  have budget: "\<not> greaterThan_dec (plus_dec 25 (Fin 0) (Fin 1)) (Fin 1)"
    by (simp add: greaterThan_dec_def dec_eval)
  have b1: "\<not> greaterThan_dec (plus_dec 25 (Fin 0) (the_epsilon ?h1)) (the_maxEpsilon ?h1)"
    using budget by simp
  have b2: "\<not> greaterThan_dec (plus_dec 25 (Fin 0) (the_epsilon ?h2)) (the_maxEpsilon ?h2)"
    using budget by simp
  have one: "round_sig 25 1 = 1"
    by (simp add: dec_eval)
  have fd: "first_done (newShadowIterator_arr ?view ?view) 1"
    using first_done_array [of "[1, 2 :: int]"] by (simp add: newShadowIterator_arr_def)
  have sens: "calculateSensitivity 25 ?f2 (newShadowIterator_arr ?view) ?view (Fin 4)
                = Some (Inr (Fin 0))"
    unfolding calculateSensitivity_first_done [of "newShadowIterator_arr ?view" ?view 1, OF fd]
    by (simp add: pulled_def newShadowIterator_arr_def newArrayViewSubsetIterator_call
          runOnModifiedDataset_def minMaxCalculation_def min_dec_def max_dec_def upt_rec dec_eval)
  have r1: "privatizedFunction 25 ?h1 (Fin 0) (Fin (3 / 4)) ?view = (Some (Inl (Thrown ())), Fin 1)"
    using sensitive_function_failure_propagates [OF b1, of 0 ?view "newIgnoreIndexArrayView ?view 0" "()" "Fin (3 / 4)" "Fin 0" "()"
               "Fin (3 / 4)" ?view]
    by (simp add: newShadowIterator_arr_def newArrayViewSubsetIterator_call one)
  have r2: "privatizedFunction 25 ?h2 (Fin 0) (Fin (3 / 4)) ?view = (Some (Inl (Thrown ())), Fin 1)"
    using sensitive_function_failure_propagates [OF b2, of 0 ?view "newIgnoreIndexArrayView ?view 0" "()" "Fin (3 / 4)" "Fin 0" "()"
               "Fin (3 / 4)" ?view] sens
    by (simp add: one)
  show ?thesis using budget r1 r2 by simp
qed

subsection \<open>The epsilon counter\<close>

lemma privatizedFunction_exceeded_iff:
  "fst (privatizedFunction p h epsilonSoFar rnd dataset)
     = Some (Inl (PrivacyBudgetExceededError ''Exceeded max privacy budget''))
   \<longleftrightarrow> greaterThan_dec (plus_dec p epsilonSoFar (the_epsilon h)) (the_maxEpsilon h)"
  by (simp add: privatizedFunction_def Let_def split: option.splits sum.splits)

lemma validateOptions_accepted:
  assumes "validateOptions options = Inr validated"
  shows "\<exists>eps iter. maxEpsilon options = JSNumber eps \<and> \<not> lessThanOrEqualTo eps (Fin 0)
           \<and> newShadowIterator options = JSFunction iter
           \<and> (maxCallCount options = JSUndefined
                \<or> (\<exists>n. maxCallCount options = JSNumber n \<and> \<not> lessThan_dec n (Fin 1)))
           \<and> maxEpsilon validated = eps \<and> maxCallCount validated = maxCallCount options"
proof (cases "maxEpsilon options")
  case (JSNumber eps)
  note me = this
  show ?thesis
  proof (cases "newShadowIterator options")
    case (JSFunction iter)
    show ?thesis
    proof (cases "maxCallCount options")
      case (JSNumber n)
      then show ?thesis
        using assms me JSFunction
        by (auto simp: validateOptions_def split: if_splits)
    next
      case JSUndefined
      then show ?thesis
        using assms me JSFunction
        by (auto simp: validateOptions_def split: if_splits)
    qed (use assms me JSFunction in \<open>simp_all add: validateOptions_def split: if_splits\<close>)
  qed (use assms me in \<open>simp_all add: validateOptions_def split: if_splits\<close>)
qed (use assms in \<open>simp_all add: validateOptions_def\<close>)

lemma factory_epsilon:
  fixes h :: "('d, 'e, 'r) PrivatizedFunction"
  assumes "privatizeFactory p probDistFunc sensitiveFunction userOptions = Inr h"
    and "maxEpsilon userOptions = JSNumber (Fin e)"
    and "maxCallCount userOptions = JSNumber (Fin k) \<or> maxCallCount userOptions = JSUndefined"
  shows "the_maxEpsilon h = Fin e \<and> (\<exists>eps. the_epsilon h = Fin eps \<and> 0 \<le> eps)"
proof -
  from assms(1) obtain validated
    where v: "(validateOptions userOptions :: 'e failure + ('d \<Rightarrow> 'd Iterator) TypedOptions)
                = Inr validated"
    and h: "h = \<lparr> the_probDistFunc = probDistFunc, the_sensitiveFunction = sensitiveFunction,
                  the_options = fillDefaultOptions validated,
                  the_maxEpsilon = maxEpsilon (fillDefaultOptions validated),
                  the_epsilon = dividedBy p (maxEpsilon (fillDefaultOptions validated))
                                  (maxCallCount (fillDefaultOptions validated)) \<rparr>"
    by (auto simp: privatizeFactory_def Let_def split: sum.splits)
  from validateOptions_accepted [OF v] assms(2)
  have epos: "0 < e" and ve: "maxEpsilon validated = Fin e"
    and vk: "maxCallCount validated = maxCallCount userOptions"
    and kk: "maxCallCount userOptions = JSUndefined
                \<or> (\<exists>n. maxCallCount userOptions = JSNumber n \<and> \<not> lessThan_dec n (Fin 1))"
    by auto
  have mx: "the_maxEpsilon h = Fin e" by (simp add: h fillDefaultOptions_def ve)
  from assms(3) show ?thesis
  proof
    assume k: "maxCallCount userOptions = JSNumber (Fin k)"
    with kk have k1: "1 \<le> k" by simp
    then have "0 \<le> e / k" using epos by simp
    then have "0 \<le> round_sig p (e / k)" by (rule round_sig_nonneg)
    moreover have "the_epsilon h = Fin (round_sig p (e / k))"
      using k1 by (simp add: h fillDefaultOptions_def ve vk k)
    ultimately show ?thesis using mx by simp
  next
    assume k: "maxCallCount userOptions = JSUndefined"
    have "0 \<le> round_sig p (e / 1)" using epos by (intro round_sig_nonneg) simp
    moreover have "the_epsilon h = Fin (round_sig p (e / 1))"
      by (simp add: h fillDefaultOptions_def ve vk k)
    ultimately show ?thesis using mx by simp
  qed
qed

lemma epsilonSoFar_after_finite:
  assumes "the_epsilon h = Fin eps" and "0 \<le> eps" and "1 \<le> p"
  shows "\<exists>s. epsilonSoFar_after p h n = Fin s \<and> 0 \<le> s \<and> representable p s"
proof (induction n)
  case 0
  have "(0::real) = of_int 0 * 10 powi 0 \<and> \<bar>0::int\<bar> < 10 ^ p" by simp
  then have "representable p 0" unfolding representable_def by blast
  then show ?case by (simp add: epsilonSoFar_initial_def)
next
  case (Suc n)
  then obtain s where s: "epsilonSoFar_after p h n = Fin s" "0 \<le> s" by (elim exE conjE)
  have "0 \<le> s + eps" using s(2) assms(2) by simp
  then have "0 \<le> round_sig p (s + eps) \<and> representable p (round_sig p (s + eps))"
    using round_sig_nonneg round_sig_representable assms(3) by simp
  then show ?case by (simp add: s(1) assms(1))
qed

lemma epsilonSoFar_after_step:
  assumes "the_epsilon h = Fin eps" and "0 \<le> eps" and "1 \<le> p"
  shows "\<exists>s t. epsilonSoFar_after p h n = Fin s \<and> epsilonSoFar_after p h (Suc n) = Fin t \<and> s \<le> t"
proof -
  from epsilonSoFar_after_finite [OF assms, of n] obtain s
    where s: "epsilonSoFar_after p h n = Fin s" "0 \<le> s" "representable p s" by (elim exE conjE)
  have "s \<le> round_sig p (s + eps)"
    using s(2,3) assms(2,3) by (intro round_sig_above_representable) simp_all
  then show ?thesis by (simp add: s(1) assms(1))
qed

lemma epsilonSoFar_after_mono:
  assumes "the_epsilon h = Fin eps" and "0 \<le> eps" and "1 \<le> p" and "m \<le> n"
  shows "\<exists>s t. epsilonSoFar_after p h m = Fin s \<and> epsilonSoFar_after p h n = Fin t \<and> s \<le> t"
  using assms(4)
proof (induction n)
  case 0
  then have "m = 0" by simp
  then show ?case by (simp add: epsilonSoFar_initial_def)
next
  case (Suc n)
  show ?case
  proof (cases "m = Suc n")
    case True
    from epsilonSoFar_after_finite [OF assms(1-3), of "Suc n"] obtain t
      where "epsilonSoFar_after p h (Suc n) = Fin t" by (elim exE conjE)
    then show ?thesis unfolding True by simp
  next
    case False
    then have "m \<le> n" using Suc.prems by simp
    from Suc.IH [OF this] obtain s t
      where st: "epsilonSoFar_after p h m = Fin s" "epsilonSoFar_after p h n = Fin t" "s \<le> t"
      by (elim exE conjE)
    from epsilonSoFar_after_step [OF assms(1-3), of n] st(2) obtain u
      where u: "epsilonSoFar_after p h (Suc n) = Fin u" "t \<le> u" by auto
    have "s \<le> u" using st(3) u(2) by simp
    then show ?thesis using st(1) u(1) by simp
  qed
qed

text \<open>
  C3. For a handle built by the factory from options whose \<^verbatim>\<open>maxEpsilon\<close> is a
  finite number, and whose \<^verbatim>\<open>maxCallCount\<close> is a finite number or missing (at a
  precision of at least one digit): every invocation leaves the counter at the old
  value plus the per-call epsilon, whatever its outcome; it raises
  \<^verbatim>\<open>PrivacyBudgetExceededError\<close> exactly when that debited value exceeds
  \<^verbatim>\<open>maxEpsilon\<close>, whatever the function and the dataset (the test precedes the
  estimation); the counter after \<open>n\<close> invocations is at most the counter after
  \<open>n + 1\<close>; and once an invocation has raised the budget error, every later
  invocation raises it.
\<close>

theorem epsilon_counter_debited_monotone_exhausted:
  assumes "privatizeFactory p probDistFunc sensitiveFunction userOptions = Inr h"
    and "maxEpsilon userOptions = JSNumber (Fin e)"
    and "maxCallCount userOptions = JSNumber (Fin k) \<or> maxCallCount userOptions = JSUndefined"
    and "1 \<le> p"
  shows "snd (privatizedFunction p h epsilonSoFar rnd dataset)
           = plus_dec p epsilonSoFar (the_epsilon h)
       \<and> (fst (privatizedFunction p h epsilonSoFar rnd dataset)
             = Some (Inl (PrivacyBudgetExceededError ''Exceeded max privacy budget''))
           \<longleftrightarrow> greaterThan_dec (plus_dec p epsilonSoFar (the_epsilon h)) (the_maxEpsilon h))
       \<and> snd (privatizedFunction p h (epsilonSoFar_after p h n) rnd dataset)
           = epsilonSoFar_after p h (Suc n)
       \<and> lessThanOrEqualTo (epsilonSoFar_after p h n) (epsilonSoFar_after p h (Suc n))
       \<and> (fst (privatizedFunction p h (epsilonSoFar_after p h m) rnd dataset)
             = Some (Inl (PrivacyBudgetExceededError ''Exceeded max privacy budget''))
           \<and> m \<le> n
          \<longrightarrow> fst (privatizedFunction p h (epsilonSoFar_after p h n) rnd' dataset')
                = Some (Inl (PrivacyBudgetExceededError ''Exceeded max privacy budget'')))"
proof -
  from factory_epsilon [OF assms(1-3), of ] obtain eps
    where mx: "the_maxEpsilon h = Fin e" and eps: "the_epsilon h = Fin eps" "0 \<le> eps"
    by (elim exE conjE)
  have mono: "lessThanOrEqualTo (epsilonSoFar_after p h n) (epsilonSoFar_after p h (Suc n))"
  proof -
    from epsilonSoFar_after_step [OF eps assms(4), of n] obtain s t
      where "epsilonSoFar_after p h n = Fin s" "epsilonSoFar_after p h (Suc n) = Fin t" "s \<le> t"
      by (elim exE conjE)
    then show ?thesis by simp
  qed
  have once: "fst (privatizedFunction p h (epsilonSoFar_after p h n) rnd' dataset')
                = Some (Inl (PrivacyBudgetExceededError ''Exceeded max privacy budget''))"
    if ex: "fst (privatizedFunction p h (epsilonSoFar_after p h m) rnd dataset)
             = Some (Inl (PrivacyBudgetExceededError ''Exceeded max privacy budget''))"
      and mn: "m \<le> n"
  proof -
    from mn have "Suc m \<le> Suc n" by simp
    from epsilonSoFar_after_mono [OF eps assms(4) this] obtain s t
      where st: "epsilonSoFar_after p h (Suc m) = Fin s" "epsilonSoFar_after p h (Suc n) = Fin t"
        "s \<le> t"
      by (elim exE conjE)
    from ex have "greaterThan_dec (epsilonSoFar_after p h (Suc m)) (the_maxEpsilon h)"
      by (simp add: privatizedFunction_exceeded_iff)
    then have "e < s" unfolding st(1) mx greaterThan_dec_def by simp
    then have "e < t" using st(3) by simp
    then have "greaterThan_dec (epsilonSoFar_after p h (Suc n)) (the_maxEpsilon h)"
      unfolding st(2) mx greaterThan_dec_def by simp
    then show ?thesis by (simp add: privatizedFunction_exceeded_iff)
  qed
  show ?thesis
    using mono once by (simp add: privatizedFunction_exceeded_iff)
qed

theorem epsilon_counter_debited_monotone_exhausted_witness:
  "privatizeFactory 25 (laplaceProbDistribution 25)
      (Inr \<circ> sumFunction :: int ArrayView \<Rightarrow> unit + decimal)
      \<lparr> maxEpsilon = JSNumber (Fin 5),
        newShadowIterator = JSFunction (newShadowIterator_arr (newArrayView [1, 2 :: int])),
        maxCallCount = JSNumber (Fin 3), maxConcurrentCalls = JSUndefined,
        debugDangerously = JSUndefined \<rparr>
     = Inr \<lparr> the_probDistFunc = laplaceProbDistribution 25,
             the_sensitiveFunction = Inr \<circ> sumFunction,
             the_options =
               \<lparr> maxEpsilon = Fin 5,
                 newShadowIterator = newShadowIterator_arr (newArrayView [1, 2 :: int]),
                 maxCallCount = Fin 3, maxConcurrentCalls = Fin 4, debugDangerously = False \<rparr>,
             the_maxEpsilon = Fin 5,
             the_epsilon = Fin (1666666666666666666666667 / 1000000000000000000000000) \<rparr>
   \<and> fst (privatizedFunction 25
        \<lparr> the_probDistFunc = laplaceProbDistribution 25,
          the_sensitiveFunction = (Inr \<circ> sumFunction :: int ArrayView \<Rightarrow> unit + decimal),
          the_options =
            \<lparr> maxEpsilon = Fin 5,
              newShadowIterator = newShadowIterator_arr (newArrayView [1, 2 :: int]),
              maxCallCount = Fin 3, maxConcurrentCalls = Fin 4, debugDangerously = False \<rparr>,
          the_maxEpsilon = Fin 5,
          the_epsilon = Fin (1666666666666666666666667 / 1000000000000000000000000) \<rparr>
        (Fin (3333333333333333333333334 / 1000000000000000000000000))
        (Fin (3 / 4)) (newArrayView [1, 2 :: int]))
       = Some (Inl (PrivacyBudgetExceededError ''Exceeded max privacy budget''))
   \<and> fst (privatizedFunction 25
        \<lparr> the_probDistFunc = laplaceProbDistribution 25,
          the_sensitiveFunction = (Inr \<circ> sumFunction :: int ArrayView \<Rightarrow> unit + decimal),
          the_options =
            \<lparr> maxEpsilon = Fin 5,
              newShadowIterator = newShadowIterator_arr (newArrayView [1, 2 :: int]),
              maxCallCount = Fin 3, maxConcurrentCalls = Fin 4, debugDangerously = False \<rparr>,
          the_maxEpsilon = Fin 5,
          the_epsilon = Fin (1666666666666666666666667 / 1000000000000000000000000) \<rparr>
        (Fin (5000000000000000000000001 / 1000000000000000000000000))
        (Fin (1 / 4)) (newArrayView [1, 2 :: int]))
       = Some (Inl (PrivacyBudgetExceededError ''Exceeded max privacy budget''))"
proof -
  let ?view = "newArrayView [1, 2 :: int]"
  let ?f = "Inr \<circ> sumFunction :: int ArrayView \<Rightarrow> unit + decimal"
  let ?opts = "\<lparr> maxEpsilon = JSNumber (Fin 5),
        newShadowIterator = JSFunction (newShadowIterator_arr ?view :: int ArrayView \<Rightarrow> int ArrayView Iterator),
        maxCallCount = JSNumber (Fin 3), maxConcurrentCalls = JSUndefined,
        debugDangerously = JSUndefined \<rparr>"
  let ?h = "\<lparr> the_probDistFunc = laplaceProbDistribution 25,
             the_sensitiveFunction = ?f,
             the_options =
               \<lparr> maxEpsilon = Fin 5,
                 newShadowIterator = (newShadowIterator_arr ?view :: int ArrayView \<Rightarrow> int ArrayView Iterator),
                 maxCallCount = Fin 3, maxConcurrentCalls = Fin 4, debugDangerously = False \<rparr>,
             the_maxEpsilon = Fin 5,
             the_epsilon = Fin (1666666666666666666666667 / 1000000000000000000000000) \<rparr>"
  have built: "privatizeFactory 25 (laplaceProbDistribution 25) ?f ?opts = Inr ?h"
    by (simp add: factory_eval dec_eval)
  have a2: "epsilonSoFar_after 25 ?h 2 = Fin (3333333333333333333333334 / 1000000000000000000000000)"
    by (simp add: numeral_2_eq_2 epsilonSoFar_initial_def dec_eval)
  have a3: "epsilonSoFar_after 25 ?h 3 = Fin (5000000000000000000000001 / 1000000000000000000000000)"
    by (simp add: numeral_3_eq_3 epsilonSoFar_initial_def dec_eval)
  have third: "fst (privatizedFunction 25 ?h (epsilonSoFar_after 25 ?h 2) (Fin (3 / 4)) ?view)
                 = Some (Inl (PrivacyBudgetExceededError ''Exceeded max privacy budget''))"
    unfolding a2 by (simp add: privatizedFunction_def greaterThan_dec_def dec_eval)
  have "fst (privatizedFunction 25 ?h (epsilonSoFar_after 25 ?h 3) (Fin (1 / 4)) ?view)
                 = Some (Inl (PrivacyBudgetExceededError ''Exceeded max privacy budget''))"
    using epsilon_counter_debited_monotone_exhausted [OF built, where e = 5 and k = 3 and epsilonSoFar = "Fin 0" and rnd = "Fin (3 / 4)"
                and dataset = ?view and m = 2 and n = 3 and rnd' = "Fin (1 / 4)"
                and dataset' = ?view] third
    by simp
  then show ?thesis using built third unfolding a2 a3 by simp
qed

subsection \<open>The estimate: maximum minus minimum\<close>

lemma finite_yielded: "finite {d. Some d \<in> set vs}"
proof -
  have "{d. Some d \<in> set vs} = Some -` set vs" by auto
  then show ?thesis by (simp add: finite_vimageI)
qed

lemma Min_insert_min:
  "finite S \<Longrightarrow> Min (insert (min a y) S) = Min (insert a (insert y (S :: real set)))"
  by (cases "S = {}") (simp_all add: min.assoc)

lemma Max_insert_max:
  "finite S \<Longrightarrow> Max (insert (max b y) S) = Max (insert b (insert y (S :: real set)))"
  by (cases "S = {}") (simp_all add: max.assoc)

lemma accumulate_finite:
  assumes "\<forall>d. Some d \<in> set vs \<longrightarrow> func d = Inr (Fin (g d))"
  shows "accumulate func vs (Fin a, Fin b)
           = Inr (Fin (Min (insert a (g ` {d. Some d \<in> set vs}))),
                  Fin (Max (insert b (g ` {d. Some d \<in> set vs}))))"
  using assms
proof (induction vs arbitrary: a b)
  case Nil
  then show ?case by simp
next
  case (Cons v vs)
  have fin: "finite (g ` {d. Some d \<in> set vs})" by (intro finite_imageI finite_yielded)
  have IH: "accumulate func vs (Fin a', Fin b')
           = Inr (Fin (Min (insert a' (g ` {d. Some d \<in> set vs}))),
                  Fin (Max (insert b' (g ` {d. Some d \<in> set vs}))))" for a' b'
    using Cons.IH Cons.prems by simp
  show ?case
  proof (cases v)
    case None
    have "{d. Some d \<in> set (v # vs)} = {d. Some d \<in> set vs}" using None by auto
    then show ?thesis
      by (simp add: None runOnModifiedDataset_def minMaxCalculation_def IH)
  next
    case (Some d)
    have fd: "func d = Inr (Fin (g d))" using Cons.prems Some by simp
    have set_eq: "{d'. Some d' \<in> set (v # vs)} = insert d {d. Some d \<in> set vs}"
      using Some by auto
    have mn: "Min (insert (min a (g d)) (g ` {d. Some d \<in> set vs}))
                = Min (insert a (insert (g d) (g ` {d. Some d \<in> set vs})))"
      using fin by (rule Min_insert_min)
    have mx: "Max (insert (max b (g d)) (g ` {d. Some d \<in> set vs}))
                = Max (insert b (insert (g d) (g ` {d. Some d \<in> set vs})))"
      using fin by (rule Max_insert_max)
    have step: "minMaxCalculation (Some (Fin (g d))) (Fin a, Fin b)
                  = (Fin (min a (g d)), Fin (max b (g d)))"
      by (simp add: minMaxCalculation_def min_dec_def max_dec_def min_def max_def)
    show ?thesis
      unfolding set_eq
      by (simp add: Some runOnModifiedDataset_def fd step IH mn mx del: Min_insert Max_insert)
  qed
qed

lemma accumulate_from_infinities:
  assumes "\<forall>d. Some d \<in> set vs \<longrightarrow> func d = Inr (Fin (g d))"
    and "\<exists>d. Some d \<in> set vs"
  shows "accumulate func vs (PosInf, NegInf)
           = Inr (Fin (Min (g ` {d. Some d \<in> set vs})), Fin (Max (g ` {d. Some d \<in> set vs})))"
  using assms
proof (induction vs)
  case Nil
  then show ?case by simp
next
  case (Cons v vs)
  show ?case
  proof (cases v)
    case None
    have "{d. Some d \<in> set (v # vs)} = {d. Some d \<in> set vs}" using None by auto
    moreover have "\<exists>d. Some d \<in> set vs" using Cons.prems(2) None by auto
    ultimately show ?thesis
      using Cons.IH Cons.prems(1)
      by (simp add: None runOnModifiedDataset_def minMaxCalculation_def)
  next
    case (Some d)
    have fd: "func d = Inr (Fin (g d))" using Cons.prems Some by simp
    have set_eq: "{d'. Some d' \<in> set (v # vs)} = insert d {d. Some d \<in> set vs}"
      using Some by auto
    have rest: "\<forall>d. Some d \<in> set vs \<longrightarrow> func d = Inr (Fin (g d))" using Cons.prems(1) by simp
    have step: "minMaxCalculation (Some (Fin (g d))) (PosInf, NegInf) = (Fin (g d), Fin (g d))"
      by (simp add: minMaxCalculation_def min_dec_def max_dec_def)
    show ?thesis
      unfolding set_eq
      by (simp add: Some runOnModifiedDataset_def fd step accumulate_finite [OF rest]
            del: Min_insert Max_insert)
  qed
qed

lemma fold_sum_skip:
  "fold (\<lambda>(val, index). if index \<noteq> i then (\<lambda>sum. sum + val) else id)
        (zip xs [k..<k + length xs]) (s::int)
     = s + sum_list xs - (if k \<le> i \<and> i < k + length xs then xs ! (i - k) else 0)"
proof (induction xs arbitrary: k s)
  case Nil
  then show ?case by simp
next
  case (Cons x xs)
  have up: "[k..<k + length (x # xs)] = k # [Suc k..<Suc k + length xs]"
    by (subst upt_rec) simp
  show ?case
    unfolding up
    using Cons.IH [of "Suc k"]
    by (auto simp: nth_Cons' Suc_diff_le)
qed

lemma sumFunction_shadow:
  "i < length xs \<Longrightarrow>
   sumFunction (newIgnoreIndexArrayView (newArrayView xs) i) = Fin (of_int (sum_list xs - xs ! i))"
proof -
  assume i: "i < length xs"
  show ?thesis
    using fold_sum_skip [of i xs 0 0] i
    by (simp add: sumFunction_def)
qed

lemma calculateSensitivity_max_minus_min:
  assumes "first_done (newSubsetIter dataset) n"
    and "\<forall>d. Some d \<in> set (pulled (newSubsetIter dataset) (Suc n)) \<longrightarrow> func d = Inr (Fin (g d))"
    and "\<exists>d. Some d \<in> set (pulled (newSubsetIter dataset) (Suc n))"
  shows "calculateSensitivity p func newSubsetIter dataset maxConcurrencyCount
           = Some (Inr (Fin (round_sig p
               (Max (g ` {d. Some d \<in> set (pulled (newSubsetIter dataset) (Suc n))})
                - Min (g ` {d. Some d \<in> set (pulled (newSubsetIter dataset) (Suc n))})))))"
  unfolding calculateSensitivity_first_done [of newSubsetIter dataset n, OF assms(1)]
  by (simp add: accumulate_from_infinities [OF assms(2,3)])

lemma round_sig_one: "1 \<le> p \<Longrightarrow> round_sig p 1 = 1"
proof -
  assume p: "1 \<le> p"
  have "(1::real) = of_int 1 * 10 powi 0 \<and> \<bar>1::int\<bar> < 10 ^ p" using p by simp
  then have "representable p 1" unfolding representable_def by blast
  then show ?thesis by (intro round_sig_exact) simp_all
qed

lemma yielded_array:
  assumes "srcArray \<noteq> []"
  shows "{d. Some d \<in> set (pulled (newArrayViewSubsetIterator (newArrayView srcArray))
                                (Suc (length srcArray - 1)))}
           = newIgnoreIndexArrayView (newArrayView srcArray) ` {0..<length srcArray}"
proof -
  have "Suc (length srcArray - 1) = length srcArray" using assms by (cases srcArray) simp_all
  then show ?thesis by (auto simp: pulled_array)
qed

lemma array_sum_sensitivity:
  assumes "srcArray \<noteq> []"
  shows "calculateSensitivity p (Inr \<circ> sumFunction) (newShadowIterator_arr (newArrayView srcArray))
            (newArrayView srcArray) maxConcurrencyCount
           = Some (Inr (Fin (round_sig p
               (Max ((\<lambda>i. real_of_int (sum_list srcArray - srcArray ! i)) ` {0..<length srcArray})
                - Min ((\<lambda>i. real_of_int (sum_list srcArray - srcArray ! i)) ` {0..<length srcArray})))))"
proof -
  let ?view = "newArrayView srcArray"
  let ?g = "\<lambda>d. real_of_int (forEach_arr d (\<lambda>e index sum. sum + e) 0)"
  have fd: "first_done (newShadowIterator_arr ?view ?view) (length srcArray - 1)"
    using first_done_array [of srcArray] by (simp add: newShadowIterator_arr_def)
  have fin: "\<forall>d. Some d \<in> set (pulled (newShadowIterator_arr ?view ?view) (Suc (length srcArray - 1)))
               \<longrightarrow> (Inr \<circ> sumFunction) d = (Inr (Fin (?g d)) :: 'a + decimal)"
    by (simp add: sumFunction_def)
  have D: "{d. Some d \<in> set (pulled (newShadowIterator_arr ?view ?view) (Suc (length srcArray - 1)))}
             = newIgnoreIndexArrayView ?view ` {0..<length srcArray}"
    using yielded_array [OF assms] by (simp add: newShadowIterator_arr_def)
  have ne: "\<exists>d. Some d \<in> set (pulled (newShadowIterator_arr ?view ?view) (Suc (length srcArray - 1)))"
  proof -
    have "newIgnoreIndexArrayView ?view 0 \<in> newIgnoreIndexArrayView ?view ` {0..<length srcArray}"
      using assms by simp
    then show ?thesis unfolding D [symmetric] by blast
  qed
  have g: "?g (newIgnoreIndexArrayView ?view i) = real_of_int (sum_list srcArray - srcArray ! i)"
    if "i < length srcArray" for i
    using sumFunction_shadow [OF that] by (simp add: sumFunction_def)
  have img: "?g ` (newIgnoreIndexArrayView ?view ` {0..<length srcArray})
               = (\<lambda>i. real_of_int (sum_list srcArray - srcArray ! i)) ` {0..<length srcArray}"
    unfolding image_image
  proof (rule image_cong)
    fix i assume "i \<in> {0..<length srcArray}"
    then have "i < length srcArray" by simp
    then show "?g (newIgnoreIndexArrayView ?view i) = real_of_int (sum_list srcArray - srcArray ! i)"
      by (rule g)
  qed simp
  show ?thesis
    unfolding calculateSensitivity_max_minus_min
                [of "newShadowIterator_arr ?view" ?view "length srcArray - 1" "Inr \<circ> sumFunction" ?g,
                 OF fd fin ne] D img ..
qed

lemma ones_with_zero_outputs:
  assumes "2 \<le> N" and "j < N"
  shows "(\<lambda>i. real_of_int (sum_list ((replicate N 1)[j := 0]) - (replicate N 1)[j := 0] ! i))
            ` {0..<length ((replicate N 1)[j := 0])}
           = {real N - 1, real N - 2}"
proof -
  let ?xs = "(replicate N (1::int))[j := 0]"
  have sum: "sum_list ?xs = int N - 1"
    using assms(2) by (simp add: upd_conv_take_nth_drop sum_list_replicate min_def)
  have nth: "?xs ! i = (if i = j then 0 else 1)" if "i < N" for i
    using that assms(2) by (simp add: nth_list_update)
  define i' where "i' = (if j = 0 then 1 else 0 :: nat)"
  have i': "i' < N" "i' \<noteq> j" using assms(1) by (simp_all add: i'_def)
  have "(\<lambda>i. real_of_int (sum_list ?xs - ?xs ! i)) ` {0..<N} = {real N - 1, real N - 2}"
  proof (intro equalityI subsetI)
    fix y assume "y \<in> (\<lambda>i. real_of_int (sum_list ?xs - ?xs ! i)) ` {0..<N}"
    then obtain i where "i < N" "y = real_of_int (sum_list ?xs - ?xs ! i)" by auto
    then show "y \<in> {real N - 1, real N - 2}" by (simp add: sum nth)
  next
    fix y assume "y \<in> {real N - 1, real N - 2}"
    then consider "y = real N - 1" | "y = real N - 2" by auto
    then show "y \<in> (\<lambda>i. real_of_int (sum_list ?xs - ?xs ! i)) ` {0..<N}"
    proof cases
      case 1
      have "real_of_int (sum_list ?xs - ?xs ! j) = real N - 1"
        using assms(2) by (simp add: sum nth)
      then show ?thesis unfolding 1 using assms(2) by (metis (no_types, lifting) atLeastLessThan_iff image_eqI zero_le)
    next
      case 2
      have "real_of_int (sum_list ?xs - ?xs ! i') = real N - 2"
        using i' by (simp add: sum nth)
      then show ?thesis unfolding 2 using i'(1) by (metis (no_types, lifting) atLeastLessThan_iff image_eqI zero_le)
    qed
  qed
  then show ?thesis by simp
qed

lemma all_ones_outputs:
  assumes "1 \<le> N"
  shows "(\<lambda>i. real_of_int (sum_list (replicate N 1) - replicate N 1 ! i))
            ` {0..<length (replicate N (1::int))}
           = {real N - 1}"
proof -
  have "(\<lambda>i. real_of_int (sum_list (replicate N 1) - replicate N 1 ! i)) ` {0..<N}
          = (\<lambda>i. real N - 1) ` {0..<N}"
    by (rule image_cong) (simp_all add: sum_list_replicate)
  also have "\<dots> = {real N - 1}" using assms by (simp add: image_constant_conv)
  finally show ?thesis by simp
qed

text \<open>
  C4 (amended). The claim: \<^verbatim>\<open>calculateSensitivity\<close> returns max - min over the
  outputs on all yielded shadow datasets, in particular exactly 1 for the sum over
  an all-ones array with one element swapped to zero and exactly 0 over an
  all-ones array. The array of length one with its element swapped to zero has a
  single shadow dataset, the empty view, and the result is 0, not 1 (and the
  empty array gives -Infinity, see C2). What holds: when the iterator ends, at
  least one shadow dataset is yielded and the function returns a finite number
  \<open>g d\<close> on each, the result is the difference of the largest and the smallest
  \<open>g d\<close>, rounded to the precision by \<^verbatim>\<open>minus\<close>; for the sum over an all-ones array
  of length at least 2 with one element set to zero it is exactly 1; for the sum
  over a non-empty all-ones array it is exactly 0.
\<close>

theorem calculateSensitivity_rounded_max_minus_min:
  "(first_done (newSubsetIter dataset) n
      \<and> (\<forall>d. Some d \<in> set (pulled (newSubsetIter dataset) (Suc n)) \<longrightarrow> func d = Inr (Fin (g d)))
      \<and> (\<exists>d. Some d \<in> set (pulled (newSubsetIter dataset) (Suc n)))
     \<longrightarrow> calculateSensitivity p func newSubsetIter dataset maxConcurrencyCount
           = Some (Inr (Fin (round_sig p
               (Max (g ` {d. Some d \<in> set (pulled (newSubsetIter dataset) (Suc n))})
                - Min (g ` {d. Some d \<in> set (pulled (newSubsetIter dataset) (Suc n))}))))))
   \<and> (2 \<le> N \<and> j < N \<and> 1 \<le> p
     \<longrightarrow> calculateSensitivity p (Inr \<circ> sumFunction)
            (newShadowIterator_arr (newArrayView ((replicate N 1)[j := 0])))
            (newArrayView ((replicate N 1)[j := 0])) maxConcurrencyCount
           = Some (Inr (Fin 1)))
   \<and> (1 \<le> N
     \<longrightarrow> calculateSensitivity p (Inr \<circ> sumFunction)
            (newShadowIterator_arr (newArrayView (replicate N 1)))
            (newArrayView (replicate N 1)) maxConcurrencyCount
           = Some (Inr (Fin 0)))"
proof (intro conjI impI)
  assume "first_done (newSubsetIter dataset) n
      \<and> (\<forall>d. Some d \<in> set (pulled (newSubsetIter dataset) (Suc n)) \<longrightarrow> func d = Inr (Fin (g d)))
      \<and> (\<exists>d. Some d \<in> set (pulled (newSubsetIter dataset) (Suc n)))"
  then show "calculateSensitivity p func newSubsetIter dataset maxConcurrencyCount
           = Some (Inr (Fin (round_sig p
               (Max (g ` {d. Some d \<in> set (pulled (newSubsetIter dataset) (Suc n))})
                - Min (g ` {d. Some d \<in> set (pulled (newSubsetIter dataset) (Suc n))})))))"
    by (intro calculateSensitivity_max_minus_min) simp_all
next
  assume a: "2 \<le> N \<and> j < N \<and> 1 \<le> p"
  then have ne: "(replicate N (1::int))[j := 0] \<noteq> []" by auto
  have "Max {real N - 1, real N - 2} - Min {real N - 1, real N - 2} = 1" by simp
  then show "calculateSensitivity p (Inr \<circ> sumFunction)
            (newShadowIterator_arr (newArrayView ((replicate N 1)[j := 0])))
            (newArrayView ((replicate N 1)[j := 0])) maxConcurrencyCount
           = Some (Inr (Fin 1))"
    unfolding array_sum_sensitivity [OF ne] ones_with_zero_outputs [of N j, OF a [THEN conjunct1] a [THEN conjunct2, THEN conjunct1]]
    using a by (simp add: round_sig_one)
next
  assume a: "1 \<le> N"
  then have ne: "replicate N (1::int) \<noteq> []" by auto
  show "calculateSensitivity p (Inr \<circ> sumFunction)
            (newShadowIterator_arr (newArrayView (replicate N 1)))
            (newArrayView (replicate N 1)) maxConcurrencyCount
           = Some (Inr (Fin 0))"
    unfolding array_sum_sensitivity [OF ne] all_ones_outputs [OF a]
    by simp
qed

theorem calculateSensitivity_single_zero_array_is_zero:
  "calculateSensitivity 25 (Inr \<circ> sumFunction :: int ArrayView \<Rightarrow> unit + decimal)
      (newShadowIterator_arr (newArrayView ((replicate 1 1)[0 := 0])))
      (newArrayView ((replicate 1 1)[0 := 0])) (Fin 1) = Some (Inr (Fin 0))
   \<and> calculateSensitivity 25 (Inr \<circ> sumFunction :: int ArrayView \<Rightarrow> unit + decimal)
      (newShadowIterator_arr (newArrayView ((replicate 1 1)[0 := 0])))
      (newArrayView ((replicate 1 1)[0 := 0])) (Fin 1) \<noteq> Some (Inr (Fin 1))"
proof -
  have xs: "(replicate 1 1)[0 := 0] = [0 :: int]" by simp
  have ne: "[0 :: int] \<noteq> []" by simp
  show ?thesis
    unfolding xs array_sum_sensitivity [OF ne] by simp
qed

theorem calculateSensitivity_rounded_max_minus_min_witness:
  "first_done (newShadowIterator_arr (newArrayView [1, 5 :: int]) (newArrayView [1, 5 :: int])) 1
   \<and> calculateSensitivity 25 (Inr \<circ> sumFunction :: int ArrayView \<Rightarrow> unit + decimal)
        (newShadowIterator_arr (newArrayView [1, 5])) (newArrayView [1, 5]) (Fin 4)
       = Some (Inr (Fin 4))
   \<and> round_sig 25
        (Max ((\<lambda>d. real_of_int (forEach_arr d (\<lambda>e index sum. sum + e) 0))
               ` {d. Some d \<in> set (pulled (newShadowIterator_arr (newArrayView [1, 5 :: int])
                                              (newArrayView [1, 5 :: int])) (Suc 1))})
         - Min ((\<lambda>d. real_of_int (forEach_arr d (\<lambda>e index sum. sum + e) 0))
               ` {d. Some d \<in> set (pulled (newShadowIterator_arr (newArrayView [1, 5 :: int])
                                              (newArrayView [1, 5 :: int])) (Suc 1))})) = 4
   \<and> (2::nat) \<le> 3 \<and> (0::nat) < 3 \<and> (1::nat) \<le> 25
   \<and> calculateSensitivity 25 (Inr \<circ> sumFunction :: int ArrayView \<Rightarrow> unit + decimal)
        (newShadowIterator_arr (newArrayView ((replicate 3 1)[0 := 0])))
        (newArrayView ((replicate 3 1)[0 := 0])) (Fin 4)
       = Some (Inr (Fin 1))
   \<and> calculateSensitivity 25 (Inr \<circ> sumFunction :: int ArrayView \<Rightarrow> unit + decimal)
        (newShadowIterator_arr (newArrayView (replicate 3 1)))
        (newArrayView (replicate 3 1)) (Fin 4)
       = Some (Inr (Fin 0))"
proof -
  let ?view = "newArrayView [1, 5 :: int]"
  let ?it = "newShadowIterator_arr ?view :: int ArrayView \<Rightarrow> int ArrayView Iterator"
  let ?f = "Inr \<circ> sumFunction :: int ArrayView \<Rightarrow> unit + decimal"
  let ?g = "\<lambda>d. real_of_int (forEach_arr d (\<lambda>e index sum. sum + e) 0)"
  have fd: "first_done (?it ?view) 1"
    using first_done_array [of "[1, 5 :: int]"] by (simp add: newShadowIterator_arr_def)
  have fin: "\<forall>d. Some d \<in> set (pulled (?it ?view) (Suc 1)) \<longrightarrow> ?f d = Inr (Fin (?g d))"
    by (simp add: sumFunction_def)
  have ne: "\<exists>d. Some d \<in> set (pulled (?it ?view) (Suc 1))"
    by (rule exI [of _ "newIgnoreIndexArrayView ?view 0"])
       (simp add: pulled_def newShadowIterator_arr_def newArrayViewSubsetIterator_call)
  have direct: "calculateSensitivity 25 ?f ?it ?view (Fin 4) = Some (Inr (Fin 4))"
    unfolding calculateSensitivity_first_done [of ?it ?view 1, OF fd]
    by (simp add: pulled_def newShadowIterator_arr_def newArrayViewSubsetIterator_call
          runOnModifiedDataset_def minMaxCalculation_def min_dec_def max_dec_def
          sumFunction_def upt_rec dec_eval)
  note inst = calculateSensitivity_rounded_max_minus_min [where newSubsetIter = ?it and dataset = ?view and n = 1 and func = ?f
        and g = ?g and p = 25 and maxConcurrencyCount = "Fin 4" and N = 3 and j = 0]
  from inst [THEN conjunct1] fd fin ne
  have general: "calculateSensitivity 25 ?f ?it ?view (Fin 4)
           = Some (Inr (Fin (round_sig 25
               (Max (?g ` {d. Some d \<in> set (pulled (?it ?view) (Suc 1))})
                - Min (?g ` {d. Some d \<in> set (pulled (?it ?view) (Suc 1))})))))"
    by blast
  have rounded: "round_sig 25
               (Max (?g ` {d. Some d \<in> set (pulled (?it ?view) (Suc 1))})
                - Min (?g ` {d. Some d \<in> set (pulled (?it ?view) (Suc 1))})) = 4"
    using general direct by simp
  have hyp: "(2::nat) \<le> 3 \<and> (0::nat) < 3 \<and> (1::nat) \<le> 25" by simp
  have zero: "calculateSensitivity 25 ?f
        (newShadowIterator_arr (newArrayView ((replicate 3 1)[0 := 0])))
        (newArrayView ((replicate 3 1)[0 := 0])) (Fin 4) = Some (Inr (Fin 1))"
    by (rule inst [THEN conjunct2, THEN conjunct1, THEN mp, OF hyp])
  have ones: "calculateSensitivity 25 ?f
        (newShadowIterator_arr (newArrayView (replicate 3 1)))
        (newArrayView (replicate 3 1)) (Fin 4) = Some (Inr (Fin 0))"
    by (rule inst [THEN conjunct2, THEN conjunct2, THEN mp]) simp
  show ?thesis using fd direct rounded zero ones by simp
qed

subsection \<open>The Laplace mechanism\<close>

lemma round_sig_minus: "round_sig p (- x) = - round_sig p x"
  by (simp add: round_sig_def quantum_def)

lemma quantum_le: assumes "0 < x" and "1 \<le> p" shows "quantum p x \<le> x"
proof -
  have "dexp x - int p + 1 \<le> dexp x" using assms(2) by simp
  then have "(10::real) powi (dexp x - int p + 1) \<le> 10 powi dexp x"
    by (intro power_int_increasing) simp_all
  then show ?thesis using dexp_lower [OF assms(1)] assms(1) by (simp add: quantum_def)
qed

lemma round_sig_upper: assumes "0 < x" and "1 \<le> p" shows "round_sig p x \<le> 3 / 2 * x"
proof -
  have "of_int \<lfloor>x / quantum p x + 1 / 2\<rfloor> \<le> x / quantum p x + 1 / 2" by (rule of_int_floor_le)
  then have "of_int \<lfloor>x / quantum p x + 1 / 2\<rfloor> * quantum p x
               \<le> (x / quantum p x + 1 / 2) * quantum p x"
    using quantum_pos [of p x] by (simp only: mult_le_cancel_right_pos)
  also have "\<dots> = x + quantum p x / 2"
    using quantum_pos [of p x] by (simp add: field_simps)
  also have "\<dots> \<le> 3 / 2 * x" using quantum_le [OF assms] by simp
  finally show ?thesis by (simp add: round_sig_pos_eq [OF assms(1)])
qed

lemma ln10_ge_2: "2 \<le> ln (10::real)"
proof -
  have "exp (2::real) = exp 1 * exp 1" by (simp flip: exp_add)
  also have "\<dots> \<le> 3 * 3" by (intro mult_mono exp_le) simp_all
  finally have "exp (2::real) \<le> 10" by simp
  then have "ln (exp (2::real)) \<le> ln 10" by (subst ln_le_cancel_iff) simp_all
  then show ?thesis by simp
qed

lemma log10_2_pos: "0 < log 10 (2::real)"
  by simp

lemma rounded_log10_2_less_ln2: assumes "1 \<le> p" shows "round_sig p (log 10 2) < ln 2"
proof -
  have ln2: "0 < ln (2::real)" by simp
  have "log 10 2 = ln 2 / ln (10::real)" by (simp add: log_def)
  also have "\<dots> \<le> ln 2 / 2" using ln10_ge_2 ln2 by (intro divide_left_mono) simp_all
  finally have "3 / 2 * log 10 2 \<le> 3 / 4 * ln (2::real)" by simp
  also have "\<dots> < ln 2" using ln2 by simp
  finally show ?thesis using round_sig_upper [OF log10_2_pos assms] by simp
qed

text \<open>
  C7 (the code departs from the claim). The claim: the mechanism returns
  \<open>(s / e) * sign * ln (1 - 2 * |u|)\<close>. The code calls \<^verbatim>\<open>Decimal.log\<close> with one
  argument, the logarithm to base 10. With sensitivity 1, epsilon 1 and the draw
  0.75 (so \<open>u\<close> = 0.25) it returns \<open>log 10 (1/2)\<close> rounded to 25 digits, about
  -0.30103, where the formula of the claim gives \<open>ln (1/2)\<close>, about -0.69315: the
  value returned is strictly closer to zero.
\<close>

theorem laplaceProbDistribution_uses_log10:
  "laplaceProbDistribution 25 (Fin (3 / 4)) (Fin 1) (Fin 1) = Fin (- round_sig 25 (log 10 2))
   \<and> laplace_formula 1 1 (3 / 4 - 1 / 2) = - ln 2
   \<and> - ln 2 < - round_sig 25 (log 10 2)"
proof (intro conjI)
  have scale: "dividedBy 25 (Fin 1) (Fin 1) = Fin 1" by (simp add: dec_eval)
  have sym: "minus_dec 25 (Fin (3 / 4)) (Fin (1 / 2)) = Fin (1 / 4)" by (simp add: dec_eval)
  have sgn: "greaterThan_dec (Fin (1 / 4)) (Fin 0)" by (simp add: greaterThan_dec_def)
  have t1: "times_dec 25 (Fin 1) (Fin 1) = Fin 1" by (simp add: dec_eval)
  have t2: "times_dec 25 TWO (abs_dec (Fin (1 / 4))) = Fin (1 / 2)" by (simp add: TWO_def dec_eval)
  have m2: "minus_dec 25 ONE (Fin (1 / 2)) = Fin (1 / 2)" by (simp add: ONE_def dec_eval)
  have lg: "log_dec 25 (Fin (1 / 2)) = Fin (- round_sig 25 (log 10 2))"
  proof -
    have "log 10 (1 / 2) = - log 10 (2::real)" by (simp add: log_divide)
    then show ?thesis by (simp add: round_sig_minus)
  qed
  have rep: "round_sig 25 (round_sig 25 (log 10 2)) = round_sig 25 (log 10 2)"
    by (intro round_sig_exact round_sig_nonneg round_sig_representable) simp_all
  have t3: "times_dec 25 (Fin 1) (Fin (- round_sig 25 (log 10 2))) = Fin (- round_sig 25 (log 10 2))"
    by (simp add: round_sig_minus rep)
  show "laplaceProbDistribution 25 (Fin (3 / 4)) (Fin 1) (Fin 1) = Fin (- round_sig 25 (log 10 2))"
    unfolding laplaceProbDistribution_def Let_def scale sym
    by (simp only: sgn if_True t1 t2 m2 lg t3)
next
  show "laplace_formula 1 1 (3 / 4 - 1 / 2) = - ln 2"
    by (simp add: laplace_formula_def ln_div)
next
  show "- ln 2 < - round_sig 25 (log 10 2)"
    using rounded_log10_2_less_ln2 [of 25] by simp
qed

subsection \<open>The bound on outstanding evaluations\<close>

lemma set_phase_length [simp]: "length (set_phase j ph pending) = length pending"
  by (simp add: set_phase_def)

lemma set_phase_Nil [simp]: "set_phase j ph [] = []"
  by (simp add: set_phase_def)

lemma set_phase_ids [simp]: "fst ` set (set_phase j ph pending) = fst ` set pending"
  by (induction pending) (auto simp: set_phase_def)

lemma set_phase_hd: "pending \<noteq> [] \<Longrightarrow> fst (hd (set_phase j ph pending)) = fst (hd pending)"
  by (cases pending) (auto simp: set_phase_def)

lemma filter_keeps_hd:
  "j \<in> fst ` set (filter (\<lambda>c. fst c \<noteq> i) pending) \<Longrightarrow> j = fst (hd pending) \<Longrightarrow>
   fst (hd (filter (\<lambda>c. fst c \<noteq> i) pending)) = j"
  by (cases pending) auto

lemma filter_removes:
  "(j, ph) \<in> set pending \<Longrightarrow> length (filter (\<lambda>c. fst c \<noteq> j) pending) < length pending"
  by (induction pending) (auto simp: less_Suc_eq_le)

lemma sched_inv_initial: "1 \<le> cr \<Longrightarrow> sched_inv cr initial_scheduler"
  by (simp add: sched_inv_def initial_scheduler_def)

lemma sched_inv_step:
  assumes "step (Fin cr) datasetIter s s'" and "sched_inv cr s" and "1 \<le> cr"
  shows "sched_inv cr s'"
  using assms
proof (induction rule: step.induct)
  case (pull s)
  then show ?case
    by (auto simp: sched_inv_def pull_step_def Let_def hd_append)
next
  case (evaluate j s)
  then have ne: "pendingCalculations s \<noteq> []" by auto
  show ?case using evaluate.prems by (auto simp: sched_inv_def set_phase_hd [OF ne])
next
  case (fail j ph s)
  then have ne: "pendingCalculations s \<noteq> []" by auto
  show ?case using fail.prems by (auto simp: sched_inv_def set_phase_hd [OF ne])
next
  case (complete j ph s)
  have shorter: "length (filter (\<lambda>c. fst c \<noteq> j) (pendingCalculations s)) < length (pendingCalculations s)"
    using complete.hyps(1) by (rule filter_removes)
  have inv_len: "real (length (pendingCalculations s)) < cr + 1"
    using complete.prems(1) by (simp add: sched_inv_def)
  have "Suc (length (filter (\<lambda>c. fst c \<noteq> j) (pendingCalculations s))) \<le> length (pendingCalculations s)"
    using shorter by simp
  then have "real (Suc (length (filter (\<lambda>c. fst c \<noteq> j) (pendingCalculations s))))
               \<le> real (length (pendingCalculations s))"
    by (simp only: of_nat_le_iff)
  then have step_down: "real (length (filter (\<lambda>c. fst c \<noteq> j) (pendingCalculations s))) + 1
               \<le> real (length (pendingCalculations s))"
    by simp
  have len1: "real (length (filter (\<lambda>c. fst c \<noteq> j) (pendingCalculations s))) < cr + 1"
    using step_down inv_len by linarith
  have len2: "real (length (filter (\<lambda>c. fst c \<noteq> j) (pendingCalculations s))) < cr"
    using step_down inv_len by linarith
  have hdk: "i = fst (hd (filter (\<lambda>c. fst c \<noteq> j) (pendingCalculations s)))"
    if "control s = AwaitingOldest i d"
      and "i \<in> fst ` set (filter (\<lambda>c. fst c \<noteq> j) (pendingCalculations s))" for i d
  proof -
    from that(2) have "i \<in> fst ` set (pendingCalculations s)" by auto
    then have "i = fst (hd (pendingCalculations s))"
      using complete.prems(1) that(1) by (simp add: sched_inv_def)
    then show ?thesis using filter_keeps_hd [OF that(2)] by simp
  qed
  have ret: "control s = Returned \<Longrightarrow> filter (\<lambda>c. fst c \<noteq> j) (pendingCalculations s) = []"
    using complete.prems(1) by (simp add: sched_inv_def)
  show ?case
    unfolding sched_inv_def using len1 len2 hdk ret by simp
next
  case (resume s j d)
  then show ?case by (auto simp: sched_inv_def)
next
  case (reject_oldest s j d)
  then show ?case by (auto simp: sched_inv_def)
next
  case (return s)
  then show ?case by (auto simp: sched_inv_def)
next
  case (reject_all s j)
  then show ?case by (auto simp: sched_inv_def)
qed

lemma sched_inv_reachable:
  assumes "reachable (Fin cr) datasetIter s" and "1 \<le> cr"
  shows "sched_inv cr s"
  using assms
proof (induction rule: reachable.induct)
  case start
  then show ?case by (rule sched_inv_initial)
next
  case (after_step s s')
  then show ?case using sched_inv_step by blast
qed

lemma concurrency_of_nat:
  "1 \<le> C \<Longrightarrow> concurrency_of (Fin (real C)) = Fin (real (min C 9999))"
  by (auto simp: concurrency_of_def min_dec_def max_dec_def min_def)

lemma outstanding_le: "outstanding s \<le> length (pendingCalculations s)"
  by (simp add: outstanding_def)

text \<open>
  C6. In a run with an integer concurrency cap \<open>C\<close> of at least 1, in every state
  the run can reach: at most \<open>C\<close> calculations are pending, so at most \<open>C\<close>
  evaluations of the sensitive function are outstanding; when \<open>C\<close> calculations
  are pending, the loop is suspended on the first (oldest) of them, not pulling
  (unless a failed calculation has rejected the run); the calculation it awaits
  there is the oldest pending one; and the run returns only when no calculation
  is pending.
\<close>

theorem at_most_cap_calculations_outstanding:
  assumes "reachable (concurrency_of (Fin (real C))) datasetIter s" and "1 \<le> C"
  shows "outstanding s \<le> C
       \<and> length (pendingCalculations s) \<le> C
       \<and> (C \<le> length (pendingCalculations s)
            \<longrightarrow> control s = Rejected
                \<or> (\<exists>d. control s = AwaitingOldest (fst (hd (pendingCalculations s))) d))
       \<and> (control s = AwaitingOldest j d \<and> j \<in> fst ` set (pendingCalculations s)
            \<longrightarrow> j = fst (hd (pendingCalculations s)))
       \<and> (control s = Returned \<longrightarrow> pendingCalculations s = [])"
proof -
  have cr: "(1::real) \<le> real (min C 9999)" using assms(2) by simp
  have inv: "sched_inv (real (min C 9999)) s"
    using assms(1) unfolding concurrency_of_nat [OF assms(2)] by (rule sched_inv_reachable [OF _ cr])
  then have "real (length (pendingCalculations s)) < real (min C 9999) + 1"
    by (simp add: sched_inv_def)
  then have "length (pendingCalculations s) < min C 9999 + 1"
    by (metis of_nat_1 of_nat_add of_nat_less_iff)
  then have len: "length (pendingCalculations s) \<le> C" by simp
  have full: "control s = Rejected
                \<or> (\<exists>d. control s = AwaitingOldest (fst (hd (pendingCalculations s))) d)"
    if "C \<le> length (pendingCalculations s)"
  proof -
    have "min C 9999 \<le> length (pendingCalculations s)" using that by simp
    then have ge: "\<not> real (length (pendingCalculations s)) < real (min C 9999)"
      by (simp only: of_nat_less_iff)
    have ne: "pendingCalculations s \<noteq> []" using that assms(2) by auto
    show ?thesis
    proof (cases "control s")
      case (AwaitingOldest i d')
      then have "i = fst (hd (pendingCalculations s))"
        using inv ge unfolding sched_inv_def by blast
      then show ?thesis using AwaitingOldest by simp
    qed (use inv ge ne in \<open>simp_all add: sched_inv_def\<close>)
  qed
  have oldest: "j = fst (hd (pendingCalculations s))"
    if "control s = AwaitingOldest j d \<and> j \<in> fst ` set (pendingCalculations s)"
    using inv that unfolding sched_inv_def by blast
  have ret: "pendingCalculations s = []" if "control s = Returned"
    using inv that by (simp add: sched_inv_def)
  show ?thesis
    using len full oldest ret outstanding_le [of s] by (intro conjI impI) simp_all
qed

theorem at_most_cap_calculations_outstanding_witness:
  "reachable (concurrency_of (Fin (real (1::nat))))
      (newArrayViewSubsetIterator (newArrayView [1, 2 :: int]))
      \<lparr> pendingCalculations = [(0, Evaluating)], nextCall = 1, control = AwaitingOldest 0 False \<rparr>
   \<and> (1::nat) \<le> 1
   \<and> outstanding
        \<lparr> pendingCalculations = [(0, Evaluating)], nextCall = 1, control = AwaitingOldest 0 False \<rparr>
       = 1
   \<and> length (pendingCalculations
        \<lparr> pendingCalculations = [(0, Evaluating)], nextCall = 1, control = AwaitingOldest 0 False \<rparr>)
       \<le> 1"
proof -
  let ?it = "newArrayViewSubsetIterator (newArrayView [1, 2 :: int])"
  let ?c = "concurrency_of (Fin (real (1::nat)))"
  let ?s1 = "\<lparr> pendingCalculations = [(0, Scheduled)], nextCall = 1, control = AwaitingOldest 0 False \<rparr>"
  let ?s2 = "\<lparr> pendingCalculations = [(0, Evaluating)], nextCall = 1, control = AwaitingOldest 0 False \<rparr>"
  have c: "concurrency_of (Fin 1) = Fin 1" by (simp add: concurrency_of_def min_dec_def max_dec_def)
  have p: "pull_step ?c ?it initial_scheduler = ?s1"
    by (simp add: c pull_step_def initial_scheduler_def newArrayViewSubsetIterator_call Let_def)
  have "step ?c ?it initial_scheduler (pull_step ?c ?it initial_scheduler)"
    by (rule step.pull) (simp add: initial_scheduler_def)
  then have r1: "reachable ?c ?it ?s1"
    unfolding p by (rule reachable.after_step [OF reachable.start])
  have "step ?c ?it ?s1 (?s1\<lparr> pendingCalculations := set_phase 0 Evaluating (pendingCalculations ?s1) \<rparr>)"
    by (rule step.evaluate) (simp_all add: newArrayViewSubsetIterator_call)
  then have "step ?c ?it ?s1 ?s2" by (simp add: set_phase_def)
  then have r2: "reachable ?c ?it ?s2" by (rule reachable.after_step [OF r1])
  have one: "(1::nat) \<le> 1" by simp
  show ?thesis
    using at_most_cap_calculations_outstanding [OF r2 one, of 0 False] r2 by (simp add: outstanding_def)
qed

end
